theory Spec2Isabelle
  imports Complex_Main "HOL-Library.Sublist" "HOL-Library.Stream"
begin

section \<open>Characters and strings\<close>

text \<open>
  A Python \<open>str\<close> is modelled as a \<open>string\<close>, each 8-bit \<open>char\<close> read as the code
  point of the same number (0 to 255, the range of the ISO-8859-1 decoding that
  \<open>load_cmudict\<close> uses). The character classes below are the Unicode-aware classes of
  Python's \<open>re\<close> and \<open>str\<close> restricted to that range.
\<close>

text \<open>\<open>[0-9]\<close>, and \<open>\d\<close> on code points below 256.\<close>

definition is_digit :: "char \<Rightarrow> bool" where
  "is_digit c \<longleftrightarrow> c \<in> set ''0123456789''"

text \<open>\<open>\s\<close> and \<open>str.isspace\<close>: tab to carriage return, the four separators 28 to 31,
  space, NEL (133) and the no-break space (160).\<close>

definition is_space :: "char \<Rightarrow> bool" where
  "is_space c \<longleftrightarrow> (of_char c :: nat) \<in> set [9, 10, 11, 12, 13, 28, 29, 30, 31, 32, 133, 160]"

definition is_ascii_letter :: "char \<Rightarrow> bool" where
  "is_ascii_letter c \<longleftrightarrow> c \<in> set ''ABCDEFGHIJKLMNOPQRSTUVWXYZabcdefghijklmnopqrstuvwxyz''"

text \<open>\<open>\w\<close>: alphanumeric code points and the underscore. Below 256 the alphanumeric ones
  are the ASCII letters and digits, the ordinal indicators (170, 186), the micro sign (181),
  the superscript digits (178, 179, 185), the vulgar fractions (188 to 190) and the
  accented letters 192 to 255 without the two operators 215 and 247.\<close>

definition is_word :: "char \<Rightarrow> bool" where
  "is_word c \<longleftrightarrow>
     is_ascii_letter c \<or> is_digit c \<or> c = CHR ''_'' \<or>
     (let n = (of_char c :: nat) in
        n \<in> set [170, 178, 179, 181, 185, 186, 188, 189, 190] \<or>
        (192 \<le> n \<and> n \<noteq> 215 \<and> n \<noteq> 247))"

text \<open>Case folding of a text character against a lower-case ASCII pattern letter under
  \<open>re.IGNORECASE\<close>: below 256 only the ASCII capital folds onto an ASCII letter.\<close>

definition lower_ascii :: "char \<Rightarrow> char" where
  "lower_ascii c =
     (if c \<in> set ''ABCDEFGHIJKLMNOPQRSTUVWXYZ'' then char_of ((of_char c :: nat) + 32) else c)"

text \<open>\<open>str.upper\<close> on one character. The capitals of the micro sign (181) and of y with
  diaeresis (255) lie beyond code point 255: the result is \<open>None\<close> there, a string that no
  8-bit string equals. The sharp s (223) becomes two characters.\<close>

definition upper_char :: "char \<Rightarrow> string option" where
  "upper_char c =
     (let n = (of_char c :: nat) in
        if 97 \<le> n \<and> n \<le> 122 then Some [char_of (n - 32)]
        else if n = 223 then Some ''SS''
        else if n = 181 \<or> n = 255 then None
        else if 224 \<le> n \<and> n \<noteq> 247 then Some [char_of (n - 32)]
        else Some [c])"

definition upper :: "string \<Rightarrow> string option" where
  "upper s = map_option concat (those (map upper_char s))"

subsection \<open>Errors\<close>

text \<open>The exceptions that the modelled code can raise: \<open>ValueError\<close> from \<open>int\<close> and from
  tuple unpacking, \<open>KeyError\<close> from a dictionary subscript, and whatever the \<open>inflect\<close>
  library raises.\<close>

datatype error = ValueError | KeyError | InflectError

definition bind_e :: "error + 'a \<Rightarrow> ('a \<Rightarrow> error + 'b) \<Rightarrow> error + 'b" where
  "bind_e x f = (case x of Inl e \<Rightarrow> Inl e | Inr v \<Rightarrow> f v)"

subsection \<open>Substitution of all matches: \<open>re.sub\<close> and \<open>str.replace\<close>\<close>

text \<open>
  \<open>re.sub(pattern, repl, text)\<close> scans \<open>text\<close> from the left. At each position it tries the
  pattern; on a match it emits the replacement and goes on behind the match, otherwise it
  emits the character and moves one position on. None of the patterns of this program
  matches the empty string. A pattern is modelled by a matcher \<open>m seen rest\<close>: \<open>seen\<close>
  is the text to the left of the position, reversed (what a lookbehind, \<open>^\<close> or \<open>\b\<close>
  inspects in the original text), \<open>rest\<close> the text from the position on; the result
  \<open>Some n\<close> says that the pattern matches the first character of \<open>rest\<close> and \<open>n\<close> more.
  The replacement is a function of the matched text.
\<close>

function re_sub :: "(string \<Rightarrow> string \<Rightarrow> nat option) \<Rightarrow> (string \<Rightarrow> string) \<Rightarrow> string \<Rightarrow> string \<Rightarrow> string" where
  "re_sub m r seen [] = []"
| "re_sub m r seen (c # cs) =
     (case m seen (c # cs) of
        None \<Rightarrow> c # re_sub m r (c # seen) cs
      | Some n \<Rightarrow> r (c # take n cs) @ re_sub m r (rev (c # take n cs) @ seen) (drop n cs))"
  by pat_completeness auto
termination
  by (relation "measure (\<lambda>(m, r, seen, s). length s)") auto

text \<open>The same with a replacement function that may raise; the first exception ends the
  substitution.\<close>

function re_sub_e :: "(string \<Rightarrow> string \<Rightarrow> nat option) \<Rightarrow> (string \<Rightarrow> error + string) \<Rightarrow> string \<Rightarrow> string \<Rightarrow> error + string" where
  "re_sub_e m r seen [] = Inr []"
| "re_sub_e m r seen (c # cs) =
     (case m seen (c # cs) of
        None \<Rightarrow> bind_e (re_sub_e m r (c # seen) cs) (\<lambda>t. Inr (c # t))
      | Some n \<Rightarrow>
          (case r (c # take n cs) of
             Inl e \<Rightarrow> Inl e
           | Inr w \<Rightarrow> bind_e (re_sub_e m r (rev (c # take n cs) @ seen) (drop n cs)) (\<lambda>t. Inr (w @ t))))"
  by pat_completeness auto
termination
  by (relation "measure (\<lambda>(m, r, seen, s). length s)") auto

text \<open>\<open>s.replace(old, new)\<close>: every leftmost non-overlapping occurrence of \<open>old\<close>. With an
  empty \<open>old\<close> Python puts \<open>new\<close> before every character and at the end.\<close>

definition literal_match :: "string \<Rightarrow> string \<Rightarrow> string \<Rightarrow> nat option" where
  "literal_match old seen rest = (if prefix old rest then Some (length old - 1) else None)"

definition str_replace :: "string \<Rightarrow> string \<Rightarrow> string \<Rightarrow> string" where
  "str_replace old new s =
     (if old = [] then new @ concat (map (\<lambda>c. c # new) s)
      else re_sub (literal_match old) (\<lambda>_. new) [] s)"

section \<open>normalization.py\<close>

subsection \<open>Punctuation\<close>

text \<open>The lookbehind \<open>(?<=[.,!?] )\<close>: a space, and one of the four marks before it.\<close>

definition after_mark_space :: "string \<Rightarrow> bool" where
  "after_mark_space seen \<longleftrightarrow>
     (case seen of sp # p # _ \<Rightarrow> sp = CHR '' '' \<and> p \<in> set ''.,!?'' | _ \<Rightarrow> False)"

text \<open>\<open>dash_pattern\<close>, \<open>(?<=[.,!?] )-- \<close>.\<close>

definition dash_pattern :: "string \<Rightarrow> string \<Rightarrow> nat option" where
  "dash_pattern seen rest =
     (if after_mark_space seen \<and> prefix ''-- '' rest then Some 2 else None)"

text \<open>\<open>parentheses_pattern\<close>, \<open>(?<=[.,!?] )[\(\[]|[\)\]](?=[.,!?])|^[\(\[]|[\)\]]$\<close>: four
  alternatives of one character each. Without \<open>re.MULTILINE\<close>, \<open>^\<close> holds at the start of
  the text only and \<open>$\<close> at its end or before a newline that ends it.\<close>

definition parentheses_pattern :: "string \<Rightarrow> string \<Rightarrow> nat option" where
  "parentheses_pattern seen rest =
     (case rest of
        [] \<Rightarrow> None
      | c # cs \<Rightarrow>
          if (c \<in> set ''(['' \<and> after_mark_space seen)
             \<or> (c \<in> set '')]'' \<and> (case cs of [] \<Rightarrow> False | d # _ \<Rightarrow> d \<in> set ''.,!?''))
             \<or> (c \<in> set ''(['' \<and> seen = [])
             \<or> (c \<in> set '')]'' \<and> (cs = [] \<or> cs = [CHR 0x0A]))
          then Some 0 else None)"

definition normalize_punctuation :: "string \<Rightarrow> string" where
  "normalize_punctuation text =
     (let text = str_replace '';'' '','' text;
          text = str_replace '':'' '','' text;
          text = re_sub dash_pattern (\<lambda>_. []) [] text;
          text = str_replace '' --'' '','' text;
          text = str_replace '' - '' '', '' text;
          text = str_replace ''-'' '' '' text;
          text = re_sub parentheses_pattern (\<lambda>_. []) [] text;
          text = str_replace '')'' '','' text;
          text = str_replace '' ('' '', '' text;
          text = str_replace '']'' '','' text;
          text = str_replace '' ['' '', '' text
      in text)"

definition add_punctuation :: "string \<Rightarrow> string" where
  "add_punctuation text =
     (if length text = 0 then text
      else if last text \<notin> set ''!,.:;?'' then text @ ''.''
      else text)"

subsection \<open>Helpers of the number rules\<close>

text \<open>\<open>s.split(sep)\<close> with a non-empty separator: the pieces between the leftmost
  non-overlapping occurrences of \<open>sep\<close>; the empty string gives one empty piece.\<close>

function split_str :: "string \<Rightarrow> string \<Rightarrow> string list" where
  "split_str sep [] = [[]]"
| "split_str sep (c # cs) =
     (if prefix sep (c # cs) then [] # split_str sep (drop (length sep - 1) cs)
      else (case split_str sep cs of
              [] \<Rightarrow> [[c]]
            | p # ps \<Rightarrow> (c # p) # ps))"
  by pat_completeness auto
termination
  by (relation "measure (\<lambda>(sep, s). length s)") auto

text \<open>\<open>int(s)\<close> on the strings that reach it here, which consist of digits and commas:
  the value of a non-empty digit string, \<open>ValueError\<close> otherwise.\<close>

definition digit_val :: "char \<Rightarrow> nat" where
  "digit_val c = of_char c - 48"

definition py_int :: "string \<Rightarrow> error + nat" where
  "py_int s =
     (if s \<noteq> [] \<and> list_all is_digit s then Inr (foldl (\<lambda>a c. 10 * a + digit_val c) 0 s)
      else Inl ValueError)"

text \<open>\<open>'%s' % n\<close> for a non-negative integer: its decimal digits.\<close>

function str_nat :: "nat \<Rightarrow> string" where
  "str_nat n =
     (if n < 10 then [char_of (48 + n)] else str_nat (n div 10) @ [char_of (48 + n mod 10)])"
  by pat_completeness auto
termination
  by (relation "measure id") auto

declare str_nat.simps [simp del]

text \<open>The text with the characters from the last digit on kept and everything behind it
  removed: where a greedy class followed by \<open>[0-9]+\<close> (or by a final \<open>[0-9]\<close>) ends after
  backtracking.\<close>

definition upto_last_digit :: "string \<Rightarrow> string" where
  "upto_last_digit s = rev (dropWhile (\<lambda>c. \<not> is_digit c) (rev s))"

text \<open>\<open>_comma_number_re\<close>, \<open>([0-9][0-9\,]+[0-9])\<close>.\<close>

definition comma_number_re :: "string \<Rightarrow> string \<Rightarrow> nat option" where
  "comma_number_re seen rest =
     (case rest of
        [] \<Rightarrow> None
      | c # cs \<Rightarrow>
          (let m = upto_last_digit (takeWhile (\<lambda>x. is_digit x \<or> x = CHR '','') cs)
           in if is_digit c \<and> 2 \<le> length m then Some (length m) else None))"

text \<open>\<open>_pounds_re\<close>, the pound sign (code point 163) followed by \<open>([0-9\,]*[0-9]+)\<close>.\<close>

definition pounds_re :: "string \<Rightarrow> string \<Rightarrow> nat option" where
  "pounds_re seen rest =
     (case rest of
        [] \<Rightarrow> None
      | c # cs \<Rightarrow>
          (let m = upto_last_digit (takeWhile (\<lambda>x. is_digit x \<or> x = CHR '','') cs)
           in if c = CHR 0xA3 \<and> m \<noteq> [] then Some (length m) else None))"

text \<open>\<open>_dollars_re\<close>, \<open>\$([0-9\.\,]*[0-9]+)\<close>.\<close>

definition dollars_re :: "string \<Rightarrow> string \<Rightarrow> nat option" where
  "dollars_re seen rest =
     (case rest of
        [] \<Rightarrow> None
      | c # cs \<Rightarrow>
          (let m = upto_last_digit (takeWhile (\<lambda>x. is_digit x \<or> x = CHR ''.'' \<or> x = CHR '','') cs)
           in if c = CHR ''$'' \<and> m \<noteq> [] then Some (length m) else None))"

text \<open>\<open>_decimal_number_re\<close>, \<open>([0-9]+\.[0-9]+)\<close>.\<close>

definition decimal_number_re :: "string \<Rightarrow> string \<Rightarrow> nat option" where
  "decimal_number_re seen rest =
     (let d1 = takeWhile is_digit rest;
          tail = drop (length d1) rest
      in case tail of
           [] \<Rightarrow> None
         | p # more \<Rightarrow>
             (let d2 = takeWhile is_digit more
              in if d1 \<noteq> [] \<and> p = CHR ''.'' \<and> d2 \<noteq> [] then Some (length d1 + length d2) else None))"

text \<open>\<open>_ordinal_re\<close>, \<open>[0-9]+(st|nd|rd|th)\<close>.\<close>

definition ordinal_re :: "string \<Rightarrow> string \<Rightarrow> nat option" where
  "ordinal_re seen rest =
     (let d = takeWhile is_digit rest
      in if d \<noteq> [] \<and> take 2 (drop (length d) rest) \<in> set [''st'', ''nd'', ''rd'', ''th'']
         then Some (length d + 1) else None)"

text \<open>\<open>_number_re\<close>, \<open>[0-9]+\<close>.\<close>

definition number_re :: "string \<Rightarrow> string \<Rightarrow> nat option" where
  "number_re seen rest =
     (let d = takeWhile is_digit rest in if d \<noteq> [] then Some (length d - 1) else None)"

subsection \<open>The \<open>inflect\<close> library\<close>

text \<open>
  \<open>inflect.engine().number_to_words\<close> belongs to a third-party package and is a parameter
  of the model: a function of the number (a string or an integer) and of the keyword
  arguments \<open>andword\<close>, \<open>zero\<close> and \<open>group\<close> that the program passes, with the library's
  defaults \<open>and\<close>, \<open>zero\<close> and \<open>0\<close> where the call leaves them out. It may raise.
\<close>

datatype inflect_num = Str string | Num nat

type_synonym inflect = "inflect_num \<Rightarrow> string \<Rightarrow> string \<Rightarrow> nat \<Rightarrow> error + string"

subsection \<open>The number rules\<close>

definition remove_commas :: "string \<Rightarrow> string" where
  "remove_commas m = str_replace '','' [] m"

definition expand_decimal_point :: "string \<Rightarrow> string" where
  "expand_decimal_point m = str_replace ''.'' '' point '' m"

text \<open>\<open>_expand_dollars\<close>; group 1 is the match without its dollar sign.\<close>

definition expand_dollars :: "string \<Rightarrow> error + string" where
  "expand_dollars m =
     (let match = tl m;
          parts = split_str ''.'' match
      in if length parts > 2 then Inr (match @ '' dollars'')
         else
           bind_e (if parts ! 0 \<noteq> [] then py_int (parts ! 0) else Inr 0) (\<lambda>dollars.
           bind_e (if length parts > 1 \<and> parts ! 1 \<noteq> [] then py_int (parts ! 1) else Inr 0) (\<lambda>cents.
             if dollars \<noteq> 0 \<and> cents \<noteq> 0 then
               (let dollar_unit = (if dollars = 1 then ''dollar'' else ''dollars'');
                    cent_unit = (if cents = 1 then ''cent'' else ''cents'')
                in Inr (str_nat dollars @ '' '' @ dollar_unit @ '', '' @ str_nat cents @ '' '' @ cent_unit))
             else if dollars \<noteq> 0 then
               (let dollar_unit = (if dollars = 1 then ''dollar'' else ''dollars'')
                in Inr (str_nat dollars @ '' '' @ dollar_unit))
             else if cents \<noteq> 0 then
               (let cent_unit = (if cents = 1 then ''cent'' else ''cents'')
                in Inr (str_nat cents @ '' '' @ cent_unit))
             else Inr ''zero dollars'')))"

definition expand_ordinal :: "inflect \<Rightarrow> string \<Rightarrow> error + string" where
  "expand_ordinal nw m = nw (Str m) ''and'' ''zero'' 0"

definition expand_number :: "inflect \<Rightarrow> string \<Rightarrow> error + string" where
  "expand_number nw m =
     bind_e (py_int m) (\<lambda>num.
       if num > 1000 \<and> num < 3000 then
         (if num = 2000 then Inr ''two thousand''
          else if num > 2000 \<and> num < 2010 then
            bind_e (nw (Num (num mod 100)) ''and'' ''zero'' 0) (\<lambda>w. Inr (''two thousand '' @ w))
          else if num mod 100 = 0 then
            bind_e (nw (Num (num div 100)) ''and'' ''zero'' 0) (\<lambda>w. Inr (w @ '' hundred''))
          else
            bind_e (nw (Num num) [] ''oh'' 2) (\<lambda>w. Inr (str_replace '', '' '' '' w)))
       else nw (Num num) [] ''zero'' 0)"

definition normalize_numbers :: "inflect \<Rightarrow> string \<Rightarrow> error + string" where
  "normalize_numbers nw text =
     (let text = re_sub comma_number_re remove_commas [] text;
          text = re_sub pounds_re (\<lambda>m. tl m @ '' pounds'') [] text
      in bind_e (re_sub_e dollars_re expand_dollars [] text) (\<lambda>text.
           (let text = re_sub decimal_number_re expand_decimal_point [] text
            in bind_e (re_sub_e ordinal_re (expand_ordinal nw) [] text) (\<lambda>text.
                 re_sub_e number_re (expand_number nw) [] text))))"

subsection \<open>Abbreviations and whitespace\<close>

definition abbreviations :: "(string \<times> string) list" where
  "abbreviations =
     [(''mrs'', ''Missis''), (''mr'', ''Mister''), (''dr'', ''Doctor''), (''st'', ''Saint''),
      (''co'', ''Company''), (''jr'', ''Junior''), (''maj'', ''Major''), (''gen'', ''General''),
      (''drs'', ''Doctors''), (''rev'', ''Reverend''), (''lt'', ''Lieutenant''),
      (''hon'', ''Honorable''), (''sgt'', ''Sergeant''), (''capt'', ''Captain''),
      (''esq'', ''Esquire''), (''ltd'', ''Limited''), (''col'', ''Colonel''), (''ft'', ''Fort''),
      (''etc'', ''etcetera'')]"

text \<open>\<open>\b\<close>: exactly one of the characters on the two sides of the position is a word
  character; the outside of the text counts as a non-word character.\<close>

definition wordy :: "string \<Rightarrow> bool" where
  "wordy s \<longleftrightarrow> (case s of [] \<Rightarrow> False | c # _ \<Rightarrow> is_word c)"

definition word_boundary :: "string \<Rightarrow> string \<Rightarrow> bool" where
  "word_boundary seen rest \<longleftrightarrow> wordy seen \<noteq> wordy rest"

text \<open>\<open>re.compile(fr"\b{abbreviation}\.", re.IGNORECASE)\<close> for a lower-case stem.\<close>

definition abbreviation_re :: "string \<Rightarrow> string \<Rightarrow> string \<Rightarrow> nat option" where
  "abbreviation_re abbreviation seen rest =
     (if word_boundary seen rest
         \<and> length abbreviation + 1 \<le> length rest
         \<and> map lower_ascii (take (length abbreviation + 1) rest) = abbreviation @ ''.''
      then Some (length abbreviation) else None)"

definition expand_abbreviations :: "string \<Rightarrow> string" where
  "expand_abbreviations text =
     foldl (\<lambda>text (abbreviation, replacement).
              re_sub (abbreviation_re abbreviation) (\<lambda>_. replacement) [] text)
       text abbreviations"

text \<open>\<open>_whitespace_re\<close>, \<open>\s+\<close>.\<close>

definition whitespace_re :: "string \<Rightarrow> string \<Rightarrow> nat option" where
  "whitespace_re seen rest =
     (let w = takeWhile is_space rest in if w \<noteq> [] then Some (length w - 1) else None)"

definition collapse_whitespace :: "string \<Rightarrow> string" where
  "collapse_whitespace text = re_sub whitespace_re (\<lambda>_. '' '') [] text"

definition normalize_text :: "inflect \<Rightarrow> string \<Rightarrow> error + string" where
  "normalize_text nw text =
     (let text = add_punctuation text
      in bind_e (normalize_numbers nw text) (\<lambda>text.
           (let text = expand_abbreviations text;
                text = collapse_whitespace text
            in Inr text)))"

subsection \<open>A model of \<open>number_to_words\<close>\<close>

text \<open>
  Modelled from the spec: \<open>number_to_words\<close> of the third-party package \<open>inflect\<close>, which
  is not part of the repository. The spec describes three readings: the standard cardinal
  expansion without \<open>and\<close> conjunctions (\<open>one thousand two hundred thirty-four\<close>), the
  reading in two-digit pairs with a zero-valued tens digit spoken as the \<open>zero\<close> word
  (\<open>nineteen, eighty-four\<close>; the program removes the commas), and the ordinal word form of
  a numeral with a trailing \<open>st\<close>, \<open>nd\<close>, \<open>rd\<close> or \<open>th\<close>. The general results below hold for every
  \<open>inflect\<close> function; this model only instantiates them and evaluates the spec's examples.
\<close>

definition unit_words :: "string list" where
  "unit_words = [[], ''one'', ''two'', ''three'', ''four'', ''five'', ''six'', ''seven'', ''eight'', ''nine'']"

definition teen_words :: "string list" where
  "teen_words = [''ten'', ''eleven'', ''twelve'', ''thirteen'', ''fourteen'', ''fifteen'', ''sixteen'',
     ''seventeen'', ''eighteen'', ''nineteen'']"

definition ten_words :: "string list" where
  "ten_words = [[], [], ''twenty'', ''thirty'', ''forty'', ''fifty'', ''sixty'', ''seventy'', ''eighty'',
     ''ninety'']"

definition scale_words :: "string list" where
  "scale_words = [[], '' thousand'', '' million'', '' billion'', '' trillion'', '' quadrillion'',
     '' quintillion'', '' sextillion'', '' septillion'', '' octillion'', '' nonillion'', '' decillion'']"

definition tens_name :: "nat \<Rightarrow> string" where
  "tens_name n =
     (if n < 10 then unit_words ! n
      else if n < 20 then teen_words ! (n - 10)
      else ten_words ! (n div 10) @ (if n mod 10 = 0 then [] else ''-'' @ unit_words ! (n mod 10)))"

definition hundreds_name :: "string \<Rightarrow> nat \<Rightarrow> string" where
  "hundreds_name andword n =
     (if n < 100 then tens_name n
      else unit_words ! (n div 100) @ '' hundred''
        @ (if n mod 100 = 0 then []
           else '' '' @ (if andword = [] then [] else andword @ '' '') @ tens_name (n mod 100)))"

text \<open>The groups of three digits of a number, the lowest first.\<close>

function thousands :: "nat \<Rightarrow> nat list" where
  "thousands n = (if n < 1000 then [n] else n mod 1000 # thousands (n div 1000))"
  by pat_completeness auto
termination
  by (relation "measure id") auto

declare thousands.simps [simp del]

fun join :: "string \<Rightarrow> string list \<Rightarrow> string" where
  "join sep [] = []"
| "join sep [x] = x"
| "join sep (x # y # ys) = x @ sep @ join sep (y # ys)"

definition cardinal :: "string \<Rightarrow> string \<Rightarrow> nat \<Rightarrow> error + string" where
  "cardinal andword zero n =
     (let groups = thousands n
      in if n = 0 then Inr zero
         else if length scale_words < length groups then Inl InflectError
         else Inr (join '' '' (rev (map (\<lambda>(g, scale). hundreds_name andword g @ scale)
                 (filter (\<lambda>(g, scale). g \<noteq> 0) (zip groups scale_words))))))"

fun digit_pairs :: "string \<Rightarrow> string list" where
  "digit_pairs (a # b # more) = [a, b] # digit_pairs more"
| "digit_pairs ds = (if ds = [] then [] else [ds])"

definition pair_name :: "string \<Rightarrow> string \<Rightarrow> string" where
  "pair_name zero ds =
     (let n = foldl (\<lambda>a c. 10 * a + digit_val c) 0 ds
      in if length ds < 2 then (if n = 0 then zero else unit_words ! n)
         else if 10 \<le> n then tens_name n
         else if n \<noteq> 0 then zero @ '' '' @ unit_words ! n
         else zero @ '' '' @ zero)"

definition ordinal_word :: "string \<Rightarrow> string" where
  "ordinal_word w =
     (case map_of [(''one'', ''first''), (''two'', ''second''), (''three'', ''third''),
                   (''five'', ''fifth''), (''eight'', ''eighth''), (''nine'', ''ninth''),
                   (''twelve'', ''twelfth'')] w of
        Some v \<Rightarrow> v
      | None \<Rightarrow> if w \<noteq> [] \<and> last w = CHR ''y'' then butlast w @ ''ieth'' else w @ ''th'')"

text \<open>The last word of a number name (behind the last space or hyphen) in its ordinal form.\<close>

definition ordinal_name :: "string \<Rightarrow> string" where
  "ordinal_name s =
     (let inside = (\<lambda>c. c \<noteq> CHR '' '' \<and> c \<noteq> CHR ''-'')
      in rev (dropWhile inside (rev s)) @ ordinal_word (rev (takeWhile inside (rev s))))"

definition number_to_words :: inflect where
  "number_to_words num andword zero grouping =
     (case num of
        Num n \<Rightarrow>
          if grouping = 2 then Inr (join '', '' (map (pair_name zero) (digit_pairs (str_nat n))))
          else cardinal andword zero n
      | Str s \<Rightarrow>
          (let suffixed = (drop (length s - 2) s \<in> set [''st'', ''nd'', ''rd'', ''th'']);
               n = foldl (\<lambda>a c. 10 * a + digit_val c) 0 (filter is_digit s)
           in if suffixed then bind_e (cardinal andword zero n) (\<lambda>w. Inr (ordinal_name w))
              else cardinal andword zero n))"

section \<open>processor.py\<close>

subsection \<open>The symbol table\<close>

definition pad :: string where "pad = ''_PAD_''"
definition eos :: string where "eos = ''_EOS_''"
definition unk :: string where "unk = ''_UNK_''"

definition punctuation :: string where
  "punctuation = ''!'' @ [CHR 0x27] @ ''(),-.:;? ''"

definition english_characters :: string where
  "english_characters = ''ABCDEFGHIJKLMNOPQRSTUVWXYZabcdefghijklmnopqrstuvwxyz''"

text \<open>The elements of the set \<open>_cmudict_symbols\<close>, in the order of the source text.\<close>

definition cmudict_symbols :: "string list" where
  "cmudict_symbols =
     [''AA'', ''AA0'', ''AA1'', ''AA2'', ''AE'', ''AE0'', ''AE1'', ''AE2'', ''AH'', ''AH0'', ''AH1'',
      ''AH2'', ''AO'', ''AO0'', ''AO1'', ''AO2'', ''AW'', ''AW0'', ''AW1'', ''AW2'', ''AY'', ''AY0'',
      ''AY1'', ''AY2'', ''B'', ''CH'', ''D'', ''DH'', ''EH'', ''EH0'', ''EH1'', ''EH2'', ''ER'', ''ER0'',
      ''ER1'', ''ER2'', ''EY'', ''EY0'', ''EY1'', ''EY2'', ''F'', ''G'', ''HH'', ''IH'', ''IH0'',
      ''IH1'', ''IH2'', ''IY'', ''IY0'', ''IY1'', ''IY2'', ''JH'', ''K'', ''L'', ''M'', ''N'', ''NG'',
      ''OW'', ''OW0'', ''OW1'', ''OW2'', ''OY'', ''OY0'', ''OY1'', ''OY2'', ''P'', ''R'', ''S'', ''SH'',
      ''T'', ''TH'', ''UH'', ''UH0'', ''UH1'', ''UH2'', ''UW'', ''UW0'', ''UW1'', ''UW2'', ''V'', ''W'',
      ''Y'', ''Z'', ''ZH'']"

text \<open>
  \<open>_arpabet\<close> lists the set in the order in which Python iterates over it, which the
  source does not fix (it depends on the string hashes of the process). That order is the
  parameter \<open>order\<close> of the table and of everything that uses it; \<open>iteration_order order\<close>
  says that \<open>order\<close> lists every element of the set once.
\<close>

definition iteration_order :: "string list \<Rightarrow> bool" where
  "iteration_order order \<longleftrightarrow> distinct order \<and> set order = set cmudict_symbols"

definition arpabet :: "string list \<Rightarrow> string list" where
  "arpabet order = map (\<lambda>s. CHR ''@'' # s) order"

definition symbols :: "string list \<Rightarrow> string list" where
  "symbols order =
     [pad, eos, unk] @ map (\<lambda>c. [c]) english_characters @ map (\<lambda>c. [c]) punctuation
       @ arpabet order"

text \<open>\<open>{s: i for i, s in enumerate(symbols)}\<close>: of two equal symbols the later index stays.\<close>

definition symbol_to_id :: "string list \<Rightarrow> string \<Rightarrow> nat option" where
  "symbol_to_id order = map_of (rev (zip (symbols order) [0 ..< length (symbols order)]))"

definition keep_symbols :: "string list \<Rightarrow> string \<Rightarrow> bool" where
  "keep_symbols order s \<longleftrightarrow> symbol_to_id order s \<noteq> None \<and> s \<notin> set [''_PAD_'', ''_EOS_'']"

definition symbols_to_sequence :: "string list \<Rightarrow> string list \<Rightarrow> nat list" where
  "symbols_to_sequence order syms =
     List.map_filter (\<lambda>s. if keep_symbols order s then symbol_to_id order s else None) syms"

text \<open>\<open>text.split()\<close>: the maximal runs of characters that are not whitespace.\<close>

fun split_ws :: "string \<Rightarrow> string list" where
  "split_ws [] = []"
| "split_ws (c # cs) =
     (if is_space c then split_ws cs
      else if cs = [] \<or> is_space (hd cs) then [c] # split_ws cs
      else (case split_ws cs of
              [] \<Rightarrow> [[c]]
            | w # ws \<Rightarrow> (c # w) # ws))"

definition arpabet_to_sequence :: "string list \<Rightarrow> string \<Rightarrow> nat list" where
  "arpabet_to_sequence order text =
     symbols_to_sequence order (map (\<lambda>s. CHR ''@'' # s) (split_ws text))"

text \<open>A text handed to \<open>_symbols_to_sequence\<close> is iterated character by character.\<close>

definition chars_of :: "string \<Rightarrow> string list" where
  "chars_of text = map (\<lambda>c. [c]) text"

subsection \<open>The pronunciation dictionary\<close>

text \<open>\<open>alt_entry_pattern\<close>, \<open>(?<=\w)\((\d)\)\<close>, and its replacement \<open>{\1}\<close>.\<close>

definition alt_entry_pattern :: "string \<Rightarrow> string \<Rightarrow> nat option" where
  "alt_entry_pattern seen rest =
     (case rest of
        c # d # e # _ \<Rightarrow>
          if wordy seen \<and> c = CHR ''('' \<and> is_digit d \<and> e = CHR '')'' then Some 2 else None
      | _ \<Rightarrow> None)"

definition format_alt_entry :: "string \<Rightarrow> string" where
  "format_alt_entry text = re_sub alt_entry_pattern (\<lambda>m. ''{'' @ [m ! 1] @ ''}'') [] text"

definition strip :: "string \<Rightarrow> string" where
  "strip s = rev (dropWhile is_space (rev (dropWhile is_space s)))"

text \<open>The dictionary comprehension of \<open>load_cmudict\<close> over the split lines; a line that
  does not split into exactly two pieces cannot be unpacked into \<open>word, pronunciation\<close>.\<close>

fun read_entries :: "(string \<rightharpoonup> string) \<Rightarrow> string list \<Rightarrow> error + (string \<rightharpoonup> string)" where
  "read_entries cmudict [] = Inr cmudict"
| "read_entries cmudict (line # more) =
     (case split_str ''  '' (strip line) of
        [word, pronunciation] \<Rightarrow> read_entries (cmudict(format_alt_entry word \<mapsto> pronunciation)) more
      | _ \<Rightarrow> Inl ValueError)"

text \<open>\<open>load_cmudict\<close> as a function of the lines of the file, each with its line end:
  \<open>islice(file_reader, 126, 133905)\<close> are the lines 126 to 133904, counted from 0.\<close>

definition load_cmudict :: "string list \<Rightarrow> error + (string \<rightharpoonup> string)" where
  "load_cmudict file_lines = read_entries Map.empty (take (133905 - 126) (drop 126 file_lines))"

subsection \<open>Mixing words and pronunciations\<close>

text \<open>\<open>random()\<close> is modelled by the stream of the numbers it is going to return: a call takes
  the head and leaves the tail. A lookup of a key that no 8-bit string equals misses.\<close>

definition get_pronunciation :: "(string \<rightharpoonup> string) \<Rightarrow> string \<Rightarrow> real stream \<Rightarrow> string \<times> real stream" where
  "get_pronunciation cmudict word rs =
     (case Option.bind (upper word) cmudict of
        None \<Rightarrow> (word, rs)
      | Some phonemes \<Rightarrow>
          (if shd rs < 0.5 then ''{'' @ phonemes @ ''}'' else word, stl rs))"

fun get_pronunciations :: "(string \<rightharpoonup> string) \<Rightarrow> string list \<Rightarrow> real stream \<Rightarrow> string list \<times> real stream" where
  "get_pronunciations cmudict [] rs = ([], rs)"
| "get_pronunciations cmudict (word # more) rs =
     (let (w, rs) = get_pronunciation cmudict word rs;
          (ws, rs) = get_pronunciations cmudict more rs
      in (w # ws, rs))"

definition mix_pronunciation :: "(string \<rightharpoonup> string) \<Rightarrow> string \<Rightarrow> real stream \<Rightarrow> string \<times> real stream" where
  "mix_pronunciation cmudict text rs =
     (let (ws, rs) = get_pronunciations cmudict (split_str '' '' text) rs
      in (join '' '' ws, rs))"

subsection \<open>The encoder\<close>

text \<open>
  \<open>_curly_re.match(text)\<close> for \<open>(.*?)\{(.+?)\}(.*)\<close>; the dot matches every character except
  the newline. \<open>close_span\<close> is the lazy \<open>(.+?)\}\<close> behind its first character: the text up
  to the next closing bracket, and the text behind that bracket.
\<close>

fun close_span :: "string \<Rightarrow> (string \<times> string) option" where
  "close_span [] = None"
| "close_span (c # cs) =
     (if c = CHR ''}'' then Some ([], cs)
      else if c = CHR 0x0A then None
      else map_option (\<lambda>(g, r). (c # g, r)) (close_span cs))"

definition bracket_body :: "string \<Rightarrow> (string \<times> string) option" where
  "bracket_body s =
     (case s of
        [] \<Rightarrow> None
      | c # cs \<Rightarrow>
          if c = CHR 0x0A then None
          else map_option (\<lambda>(g, r). (c # g, takeWhile (\<lambda>x. x \<noteq> CHR 0x0A) r)) (close_span cs))"

fun curly_re :: "string \<Rightarrow> (string \<times> string \<times> string) option" where
  "curly_re [] = None"
| "curly_re (c # cs) =
     (case (if c = CHR ''{'' then bracket_body cs else None) of
        Some (g2, g3) \<Rightarrow> Some ([], g2, g3)
      | None \<Rightarrow>
          if c = CHR 0x0A then None
          else map_option (\<lambda>(g1, g2, g3). (c # g1, g2, g3)) (curly_re cs))"

lemma close_span_length: "close_span s = Some (g, r) \<Longrightarrow> length r < length s"
  by (induction s arbitrary: g) (auto split: if_splits)

lemma bracket_body_length: "bracket_body s = Some (g, r) \<Longrightarrow> length r < length s"
proof -
  assume a: "bracket_body s = Some (g, r)"
  then obtain c cs g' r' where s: "s = c # cs" and cl: "close_span cs = Some (g', r')"
    and r: "r = takeWhile (\<lambda>x. x \<noteq> CHR 0x0A) r'"
    by (auto simp: bracket_body_def split: list.splits if_splits)
  have "length r \<le> length r'" unfolding r by (rule length_takeWhile_le)
  with close_span_length [OF cl] s show ?thesis by simp
qed

lemma curly_re_length: "curly_re s = Some (g1, g2, g3) \<Longrightarrow> length g3 < length s"
proof (induction s arbitrary: g1)
  case Nil
  then show ?case by simp
next
  case (Cons c cs)
  then show ?case
    by (fastforce split: option.splits if_splits dest: bracket_body_length)
qed

text \<open>The \<open>while\<close> loop of \<open>text_to_sequence\<close>, returning what it adds to \<open>sequence\<close>.\<close>

function encode_loop :: "string list \<Rightarrow> string \<Rightarrow> nat list" where
  "encode_loop order text =
     (if length text = 0 then []
      else (case curly_re text of
              None \<Rightarrow> symbols_to_sequence order (chars_of text)
            | Some (g1, g2, g3) \<Rightarrow>
                symbols_to_sequence order (chars_of g1) @ arpabet_to_sequence order g2
                  @ encode_loop order g3))"
  by pat_completeness auto
termination
  by (relation "measure (\<lambda>(order, text). length text)") (auto dest: curly_re_length)

declare encode_loop.simps [simp del]

text \<open>The encoder proper: the loop on a mixed text and the end-of-sequence ID.\<close>

definition encode :: "string list \<Rightarrow> string \<Rightarrow> error + nat list" where
  "encode order text =
     (case symbol_to_id order eos of
        None \<Rightarrow> Inl KeyError
      | Some i \<Rightarrow> Inr (encode_loop order text @ [i]))"

definition text_to_sequence :: "inflect \<Rightarrow> string list \<Rightarrow> (string \<rightharpoonup> string) \<Rightarrow> string \<Rightarrow> real stream \<Rightarrow> error + (nat list \<times> real stream)" where
  "text_to_sequence nw order cmudict text rs =
     bind_e (normalize_text nw text) (\<lambda>text.
       (let (text, rs) = mix_pronunciation cmudict text rs
        in bind_e (encode order text) (\<lambda>sequence. Inr (sequence, rs))))"

section \<open>Properties of the substitutions\<close>

lemma re_sub_set:
  "set (re_sub m r seen s) \<subseteq> set s \<union> (\<Union>x. set (r x))"
proof (induction m r seen s rule: re_sub.induct)
  case (1 m r seen)
  then show ?case by simp
next
  case (2 m r seen c cs)
  show ?case
  proof (cases "m seen (c # cs)")
    case None
    with 2(1) show ?thesis by auto
  next
    case (Some n)
    have "set (drop n cs) \<subseteq> set cs" by (rule set_drop_subset)
    with 2(2) [OF Some] Some show ?thesis by auto
  qed
qed

lemma re_sub_removes:
  assumes "\<And>seen t. m seen (c # t) \<noteq> None" and "\<And>x. c \<notin> set (r x)"
  shows "c \<notin> set (re_sub m r seen s)"
  using assms
proof (induction m r seen s rule: re_sub.induct)
  case (1 m r seen)
  then show ?case by simp
next
  case (2 m r seen d ds)
  show ?case
  proof (cases "m seen (d # ds)")
    case None
    with 2(3) have "d \<noteq> c" by metis
    with 2(1) [OF None 2(3) 2(4)] None show ?thesis by simp
  next
    case (Some n)
    with 2(2) [OF Some 2(3) 2(4)] 2(4) show ?thesis by simp
  qed
qed

lemma str_replace_set: "set (str_replace old new s) \<subseteq> set s \<union> set new"
proof (cases "old = []")
  case True
  then show ?thesis by (auto simp: str_replace_def)
next
  case False
  with re_sub_set [of "literal_match old" "\<lambda>_. new" "[]" s] show ?thesis
    by (auto simp: str_replace_def)
qed

lemma str_replace_removes: "c \<notin> set new \<Longrightarrow> c \<notin> set (str_replace [c] new s)"
  unfolding str_replace_def
  by (simp, rule re_sub_removes) (simp_all add: literal_match_def)

lemma re_sub_delete_set: "set (re_sub m (\<lambda>_. []) seen s) \<subseteq> set s"
  using re_sub_set [of m "\<lambda>_. []" seen s] by simp

lemma str_replace_keeps_out: "c \<notin> set s \<Longrightarrow> c \<notin> set new \<Longrightarrow> c \<notin> set (str_replace old new s)"
  using str_replace_set [of old new s] by auto

lemma re_sub_delete_keeps_out: "c \<notin> set s \<Longrightarrow> c \<notin> set (re_sub m (\<lambda>_. []) seen s)"
  using re_sub_delete_set [of m seen s] by auto

section \<open>The punctuation normalizer\<close>

text \<open>
  C7: for every input text the output of \<open>normalize_punctuation\<close> contains no semicolon,
  no colon and no hyphen, and the empty text is mapped to the empty text.
\<close>

theorem normalize_punctuation_reduced:
  "CHR '';'' \<notin> set (normalize_punctuation text) \<and> CHR '':'' \<notin> set (normalize_punctuation text)
   \<and> CHR ''-'' \<notin> set (normalize_punctuation text) \<and> normalize_punctuation [] = []"
proof -
  have semi: "CHR '';'' \<notin> set (normalize_punctuation text)"
    unfolding normalize_punctuation_def Let_def
    by (intro str_replace_keeps_out re_sub_delete_keeps_out str_replace_removes) simp_all
  have colon: "CHR '':'' \<notin> set (normalize_punctuation text)"
    unfolding normalize_punctuation_def Let_def
    by (intro str_replace_keeps_out re_sub_delete_keeps_out str_replace_removes) simp_all
  have dash: "CHR ''-'' \<notin> set (normalize_punctuation text)"
    unfolding normalize_punctuation_def Let_def
    by (intro str_replace_keeps_out re_sub_delete_keeps_out str_replace_removes) simp_all
  have empty: "normalize_punctuation [] = []"
    by (simp add: normalize_punctuation_def str_replace_def)
  from semi colon dash empty show ?thesis by simp
qed

theorem normalize_punctuation_reduced_witness:
  "normalize_punctuation ''a;b: c-d'' = ''a,b, c d''
   \<and> CHR '';'' \<notin> set (normalize_punctuation ''a;b: c-d'')"
  using normalize_punctuation_reduced [of "''a;b: c-d''"]
  by (simp add: normalize_punctuation_def str_replace_def literal_match_def dash_pattern_def
      parentheses_pattern_def after_mark_space_def)

section \<open>The symbol table and the encoder\<close>

definition fixed_symbols :: "string list" where
  "fixed_symbols = [pad, eos, unk] @ map (\<lambda>c. [c]) english_characters @ map (\<lambda>c. [c]) punctuation"

lemma length_fixed_symbols: "length fixed_symbols = 66"
  by (simp add: fixed_symbols_def english_characters_def punctuation_def)

lemma symbols_split: "symbols order = fixed_symbols @ arpabet order"
  by (simp add: symbols_def fixed_symbols_def)

lemma symbol_to_id_nth:
  assumes "symbol_to_id order s = Some i"
  shows "i < length (symbols order) \<and> symbols order ! i = s"
proof -
  from assms have "(s, i) \<in> set (zip (symbols order) [0 ..< length (symbols order)])"
    unfolding symbol_to_id_def by (auto dest: map_of_SomeD)
  then show ?thesis by (auto simp: set_zip)
qed

lemma symbol_to_id_member:
  assumes "s \<in> set (symbols order)"
  shows "\<exists>i. symbol_to_id order s = Some i"
proof -
  have "s \<in> fst ` set (rev (zip (symbols order) [0 ..< length (symbols order)]))"
    using assms by (force simp: set_zip in_set_conv_nth)
  then have "symbol_to_id order s \<noteq> None"
    unfolding symbol_to_id_def by (simp only: map_of_eq_None_iff not_not)
  then show ?thesis by auto
qed

definition fixed_ids :: "(string \<times> nat) list" where
  "fixed_ids = rev (zip fixed_symbols [0 ..< 66])"

lemma fixed_ids_eq: "fixed_ids =
  [('' '', 65), (''?'', 64), ('';'', 63), ('':'', 62), (''.'', 61), (''-'', 60), ('','', 59),
   ('')'', 58), (''('', 57), ([CHR 0x27], 56), (''!'', 55),
   (''z'', 54), (''y'', 53), (''x'', 52), (''w'', 51), (''v'', 50), (''u'', 49), (''t'', 48),
   (''s'', 47), (''r'', 46), (''q'', 45), (''p'', 44), (''o'', 43), (''n'', 42), (''m'', 41),
   (''l'', 40), (''k'', 39), (''j'', 38), (''i'', 37), (''h'', 36), (''g'', 35), (''f'', 34),
   (''e'', 33), (''d'', 32), (''c'', 31), (''b'', 30), (''a'', 29),
   (''Z'', 28), (''Y'', 27), (''X'', 26), (''W'', 25), (''V'', 24), (''U'', 23), (''T'', 22),
   (''S'', 21), (''R'', 20), (''Q'', 19), (''P'', 18), (''O'', 17), (''N'', 16), (''M'', 15),
   (''L'', 14), (''K'', 13), (''J'', 12), (''I'', 11), (''H'', 10), (''G'', 9), (''F'', 8),
   (''E'', 7), (''D'', 6), (''C'', 5), (''B'', 4), (''A'', 3),
   (''_UNK_'', 2), (''_EOS_'', 1), (''_PAD_'', 0)]"
  unfolding fixed_ids_def by code_simp


lemma symbol_to_id_fixed:
  assumes "s \<notin> set (arpabet order)"
  shows "symbol_to_id order s = map_of fixed_ids s"
proof -
  let ?n = "length (arpabet order)"
  have up: "[0 ..< 66 + ?n] = [0 ..< 66] @ [66 ..< 66 + ?n]"
    by (metis le_add1 upt_add_eq_append zero_le)
  have z: "zip (symbols order) [0 ..< length (symbols order)] =
      zip fixed_symbols [0 ..< 66] @ zip (arpabet order) [66 ..< 66 + ?n]"
    by (simp add: symbols_split length_fixed_symbols up del: upt_Suc)
  have "map_of (rev (zip (arpabet order) [66 ..< 66 + ?n])) s = None"
    using assms by (auto simp: map_of_eq_None_iff dest!: set_zip_leftD)
  then show ?thesis
    unfolding symbol_to_id_def z fixed_ids_def by (simp add: map_add_def)
qed

lemma eos_id: "symbol_to_id order eos = Some 1"
proof -
  have "eos \<notin> set (arpabet order)" by (auto simp: arpabet_def eos_def)
  then have "symbol_to_id order eos = map_of fixed_ids eos"
    by (rule symbol_to_id_fixed)
  also have "\<dots> = Some 1"
    by (simp add: fixed_ids_eq eos_def)
  finally show ?thesis .
qed

lemma char_id:
  "c \<noteq> CHR ''@'' \<Longrightarrow> symbol_to_id order [c] = map_of fixed_ids [c]"
  by (rule symbol_to_id_fixed) (auto simp: arpabet_def)

lemma set_map_filter: "set (List.map_filter f xs) = {y. \<exists>x \<in> set xs. f x = Some y}"
  by (induction xs) (auto split: option.splits)

lemma map_filter_append: "List.map_filter f (xs @ ys) = List.map_filter f xs @ List.map_filter f ys"
  by (induction xs) (auto split: option.splits)

lemma symbols_to_sequence_no_eos: "1 \<notin> set (symbols_to_sequence order syms)"
proof
  assume "1 \<in> set (symbols_to_sequence order syms)"
  then obtain s where k: "keep_symbols order s" and i: "symbol_to_id order s = Some 1"
    by (auto simp: symbols_to_sequence_def set_map_filter split: if_splits)
  from symbol_to_id_nth [OF i] have "s = symbols order ! 1" by simp
  then have "s = eos" by (simp add: symbols_def)
  with k show False by (simp add: keep_symbols_def eos_def)
qed

lemma encode_loop_no_eos: "1 \<notin> set (encode_loop order t)"
proof (induction order t rule: encode_loop.induct)
  case (1 order t)
  show ?case
  proof (cases "curly_re t")
    case None
    with symbols_to_sequence_no_eos [of order "chars_of t"] show ?thesis
      by (subst encode_loop.simps) simp
  next
    case (Some g)
    obtain g1 g2 g3 where g: "g = (g1, g2, g3)" by (cases g)
    show ?thesis
    proof (cases "length t = 0")
      case True
      then show ?thesis by (subst encode_loop.simps) simp
    next
      case False
      from 1 [OF False Some [unfolded g] refl refl] False Some g
        symbols_to_sequence_no_eos [of order "chars_of g1"]
        symbols_to_sequence_no_eos [of order "map (\<lambda>s. CHR ''@'' # s) (split_ws g2)"]
      show ?thesis
        by (subst encode_loop.simps) (simp add: arpabet_to_sequence_def)
    qed
  qed
qed

lemma encode_loop_match:
  "curly_re t = Some (g1, g2, g3) \<Longrightarrow>
     encode_loop order t =
       symbols_to_sequence order (chars_of g1) @ arpabet_to_sequence order g2 @ encode_loop order g3"
  by (subst encode_loop.simps) auto

lemma encode_loop_no_match:
  "curly_re t = None \<Longrightarrow> encode_loop order t = symbols_to_sequence order (chars_of t)"
  by (subst encode_loop.simps) (simp add: symbols_to_sequence_def chars_of_def)

lemma encode_eq: "encode order text = Inr (encode_loop order text @ [1])"
  by (simp add: encode_def eos_id)


lemma close_span_Some: "close_span s = Some (g, r) \<Longrightarrow> s = g @ CHR ''}'' # r"
  by (induction s arbitrary: g) (auto split: if_splits)

lemma bracket_body_Some:
  "bracket_body s = Some (g2, g3) \<Longrightarrow>
     \<exists>r. s = g2 @ CHR ''}'' # r \<and> g3 = takeWhile (\<lambda>x. x \<noteq> CHR 0x0A) r"
  by (auto simp: bracket_body_def split: list.splits if_splits dest: close_span_Some)

lemma curly_re_Some:
  "curly_re s = Some (g1, g2, g3) \<Longrightarrow>
     \<exists>r. s = g1 @ CHR ''{'' # g2 @ CHR ''}'' # r \<and> g3 = takeWhile (\<lambda>x. x \<noteq> CHR 0x0A) r"
proof (induction s arbitrary: g1)
  case Nil
  then show ?case by simp
next
  case (Cons c cs)
  show ?case
  proof (cases "if c = CHR ''{'' then bracket_body cs else None")
    case None
    with Cons.prems obtain h where h: "curly_re cs = Some (h, g2, g3)" and g1: "g1 = c # h"
      by (auto split: if_splits)
    from Cons.IH [OF h] g1 show ?thesis by auto
  next
    case (Some b)
    with Cons.prems have "c = CHR ''{''" "bracket_body cs = Some (g2, g3)" "g1 = []"
      by (auto split: if_splits)
    with bracket_body_Some [of cs g2 g3] show ?thesis by auto
  qed
qed

lemma curly_re_no_close: "CHR ''}'' \<notin> set s \<Longrightarrow> curly_re s = None"
proof (rule ccontr)
  assume a: "CHR ''}'' \<notin> set s" and "curly_re s \<noteq> None"
  then obtain g1 g2 g3 where "curly_re s = Some (g1, g2, g3)" by auto
  from curly_re_Some [OF this] a show False by auto
qed

lemma brace_not_symbol: "symbols_to_sequence order [''{''] = []"
proof -
  have "symbol_to_id order ''{'' = map_of fixed_ids ''{''"
    by (rule char_id) simp
  also have "\<dots> = None" by (simp add: fixed_ids_eq)
  finally show ?thesis by (simp add: symbols_to_sequence_def keep_symbols_def)
qed

lemma symbols_to_sequence_append:
  "symbols_to_sequence order (xs @ ys) = symbols_to_sequence order xs @ symbols_to_sequence order ys"
  by (simp add: symbols_to_sequence_def map_filter_append)

lemma literal_drops_brace:
  "symbols_to_sequence order (chars_of (pre @ CHR ''{'' # rest)) =
     symbols_to_sequence order (chars_of pre) @ symbols_to_sequence order (chars_of rest)"
proof -
  have "chars_of (pre @ CHR ''{'' # rest) = chars_of pre @ [''{''] @ chars_of rest"
    by (simp add: chars_of_def)
  then show ?thesis
    by (simp only: symbols_to_sequence_append brace_not_symbol append_Nil)
qed

lemma encode_loop_unterminated:
  assumes "CHR ''}'' \<notin> set rest" and "CHR 0x0A \<notin> set (pre @ rest)"
  shows "\<exists>ys. encode_loop order (pre @ CHR ''{'' # rest) = ys @ symbols_to_sequence order (chars_of rest)"
  using assms
proof (induction "length pre" arbitrary: pre rule: less_induct)
  case less
  let ?t = "pre @ CHR ''{'' # rest"
  show ?case
  proof (cases "curly_re ?t")
    case None
    then have "encode_loop order ?t = symbols_to_sequence order (chars_of ?t)"
      by (subst encode_loop.simps) simp
    then show ?thesis by (simp only: literal_drops_brace) blast
  next
    case (Some g)
    obtain g1 g2 g3 where g: "g = (g1, g2, g3)" by (cases g)
    from curly_re_Some [OF Some [unfolded g]] obtain r
      where t: "?t = g1 @ CHR ''{'' # g2 @ CHR ''}'' # r"
        and g3: "g3 = takeWhile (\<lambda>x. x \<noteq> CHR 0x0A) r" by blast
    from t have "set r \<subseteq> set ?t" by auto
    with less.prems(2) have "CHR 0x0A \<notin> set r" by auto
    then have "\<forall>x \<in> set r. x \<noteq> CHR 0x0A" by blast
    then have g3r: "g3 = r" unfolding g3 by (simp only: takeWhile_eq_all_conv)
    from t have "pre @ (CHR ''{'' # rest) = (g1 @ CHR ''{'' # g2) @ (CHR ''}'' # r)" by simp
    then obtain us where
      "(pre = (g1 @ CHR ''{'' # g2) @ us \<and> us @ CHR ''{'' # rest = CHR ''}'' # r)
       \<or> (pre @ us = g1 @ CHR ''{'' # g2 \<and> CHR ''{'' # rest = us @ CHR ''}'' # r)"
      unfolding append_eq_append_conv2 by blast
    then obtain p where pre: "pre = (g1 @ CHR ''{'' # g2) @ CHR ''}'' # p" and r: "r = p @ CHR ''{'' # rest"
    proof
      assume a: "pre = (g1 @ CHR ''{'' # g2) @ us \<and> us @ CHR ''{'' # rest = CHR ''}'' # r"
      then obtain p where "us = CHR ''}'' # p" by (cases us) auto
      with a that show ?thesis by auto
    next
      assume a: "pre @ us = g1 @ CHR ''{'' # g2 \<and> CHR ''{'' # rest = us @ CHR ''}'' # r"
      then have "CHR ''}'' \<in> set (CHR ''{'' # rest)" by (metis in_set_conv_decomp)
      with less.prems(1) show ?thesis by simp
    qed
    from pre have "length p < length pre" by simp
    moreover from pre less.prems(2) have "CHR 0x0A \<notin> set (p @ rest)" by auto
    ultimately obtain ys where ys: "encode_loop order (p @ CHR ''{'' # rest) = ys @ symbols_to_sequence order (chars_of rest)"
      using less.hyps less.prems(1) by blast
    have "encode_loop order ?t =
        symbols_to_sequence order (chars_of g1) @ arpabet_to_sequence order g2 @ encode_loop order g3"
      using Some g by (subst encode_loop.simps) simp
    with ys g3r r show ?thesis by simp
  qed
qed

text \<open>
  C3, as the code has it: a text \<open>pre{rest\<close> whose \<open>rest\<close> holds no closing bracket, and that
  holds no newline, is not read as a phonetic span from that bracket on. The bracket itself
  gets no ID and the characters of \<open>rest\<close> are encoded one by one through the literal table;
  the sequence ends with these IDs and the end-of-sequence ID. When \<open>pre\<close> holds no closing
  bracket either, the whole text is encoded as literal text.
\<close>

theorem unterminated_bracket_is_literal:
  assumes "CHR ''}'' \<notin> set rest" and "CHR 0x0A \<notin> set (pre @ rest)"
  shows "(\<exists>ys. encode order (pre @ CHR ''{'' # rest) = Inr (ys @ symbols_to_sequence order (chars_of rest) @ [1]))
       \<and> (CHR ''}'' \<notin> set pre \<longrightarrow>
            encode order (pre @ CHR ''{'' # rest) =
              Inr (symbols_to_sequence order (chars_of pre) @ symbols_to_sequence order (chars_of rest) @ [1]))"
proof
  from encode_loop_unterminated [OF assms] show
    "\<exists>ys. encode order (pre @ CHR ''{'' # rest) = Inr (ys @ symbols_to_sequence order (chars_of rest) @ [1])"
    by (auto simp: encode_eq)
next
  show "CHR ''}'' \<notin> set pre \<longrightarrow>
      encode order (pre @ CHR ''{'' # rest) =
        Inr (symbols_to_sequence order (chars_of pre) @ symbols_to_sequence order (chars_of rest) @ [1])"
  proof
    assume "CHR ''}'' \<notin> set pre"
    with assms(1) have "curly_re (pre @ CHR ''{'' # rest) = None"
      by (intro curly_re_no_close) simp
    then have "encode_loop order (pre @ CHR ''{'' # rest) =
        symbols_to_sequence order (chars_of (pre @ CHR ''{'' # rest))"
      by (subst encode_loop.simps) simp
    then show "encode order (pre @ CHR ''{'' # rest) =
        Inr (symbols_to_sequence order (chars_of pre) @ symbols_to_sequence order (chars_of rest) @ [1])"
      by (simp add: encode_eq literal_drops_brace)
  qed
qed

lemma literal_ids:
  "CHR ''@'' \<notin> set t \<Longrightarrow>
     symbols_to_sequence order (chars_of t) =
       List.map_filter (\<lambda>c. if [c] \<notin> set [''_PAD_'', ''_EOS_''] then map_of fixed_ids [c] else None) t"
  unfolding symbols_to_sequence_def chars_of_def keep_symbols_def
  by (induction t) (auto simp: char_id split: option.splits)

lemma phonetic_id:
  assumes "s \<in> set order"
  shows "\<exists>i. symbols_to_sequence order [CHR ''@'' # s] = [i] \<and> symbols order ! i = CHR ''@'' # s
     \<and> 66 \<le> i \<and> i < 66 + length order"
proof -
  from assms have "CHR ''@'' # s \<in> set (symbols order)" by (simp add: symbols_def arpabet_def)
  from symbol_to_id_member [OF this] obtain i where i: "symbol_to_id order (CHR ''@'' # s) = Some i" ..
  from symbol_to_id_nth [OF i] have n: "i < length (symbols order)" "symbols order ! i = CHR ''@'' # s" by simp_all
  have "\<not> i < 66"
  proof
    assume "i < 66"
    then have "symbols order ! i = fixed_symbols ! i"
      by (simp add: symbols_split nth_append length_fixed_symbols)
    moreover have "\<forall>x \<in> set fixed_symbols. x \<noteq> CHR ''@'' # s"
      by (auto simp: fixed_symbols_def pad_def eos_def unk_def english_characters_def punctuation_def)
    ultimately show False using n(2) \<open>i < 66\<close> by (metis length_fixed_symbols nth_mem)
  qed
  moreover from n(1) have "i < 66 + length order"
    by (simp add: symbols_split length_fixed_symbols arpabet_def)
  ultimately show ?thesis using i n(2)
    by (auto simp: symbols_to_sequence_def keep_symbols_def)
qed

lemma unterminated_example: "encode order ''{HH'' = Inr [10, 10, 1]"
proof -
  have "curly_re ''{HH'' = None" by (rule curly_re_no_close) simp
  from encode_loop_no_match [OF this] have "encode_loop order ''{HH'' = [10, 10]"
    by (simp add: literal_ids fixed_ids_eq)
  then show ?thesis by (simp add: encode_eq)
qed

lemma length_symbols_to_sequence: "length (symbols_to_sequence order syms) \<le> length syms"
  unfolding symbols_to_sequence_def by (induction syms) (auto split: option.splits)

text \<open>
  The claim C3 as stated fails: for \<open>{HH\<close> the encoder emits the two letter IDs of \<open>H\<close> and
  the end-of-sequence ID, not the ID of the phonetic unit \<open>HH\<close>.
\<close>

theorem unterminated_bracket_counterexample:
  "encode cmudict_symbols ''{HH'' = Inr [10, 10, 1]
   \<and> encode cmudict_symbols ''{HH'' \<noteq> Inr (arpabet_to_sequence cmudict_symbols ''HH'' @ [1])"
proof -
  have "split_ws ''HH'' = [''HH'']" by (simp add: is_space_def)
  then have "length (arpabet_to_sequence cmudict_symbols ''HH'') \<le> 1"
    using length_symbols_to_sequence [of cmudict_symbols "[''@HH'']"]
    by (simp add: arpabet_to_sequence_def)
  then have "arpabet_to_sequence cmudict_symbols ''HH'' @ [1] \<noteq> [10, 10, 1]"
    by (metis One_nat_def length_Cons length_append_singleton list.size(3) not_less_eq_eq numeral_2_eq_2 Suc_1 Suc_inject le_SucI lessI not_less)
  with unterminated_example [of cmudict_symbols] show ?thesis by simp
qed

theorem unterminated_bracket_is_literal_witness:
  "CHR ''}'' \<notin> set ''HH'' \<and> CHR 0x0A \<notin> set (''{AH0} x '' @ ''HH'')
   \<and> (\<exists>ys. encode cmudict_symbols (''{AH0} x '' @ CHR ''{'' # ''HH'') =
          Inr (ys @ symbols_to_sequence cmudict_symbols (chars_of ''HH'') @ [1]))"
proof -
  have h1: "CHR ''}'' \<notin> set ''HH''" by simp
  have h2: "CHR 0x0A \<notin> set (''{AH0} x '' @ ''HH'')" by simp
  from unterminated_bracket_is_literal [OF h1 h2, of cmudict_symbols] h1 h2 show ?thesis by blast
qed

text \<open>
  Whenever \<open>text_to_sequence\<close> returns, the sequence is not empty, ends with the
  end-of-sequence ID 1 and holds that ID nowhere else.
\<close>

lemma text_to_sequence_ends_with_eos:
  assumes "text_to_sequence nw order cmudict t rs = Inr (sequence, rs')"
  shows "1 \<le> length sequence \<and> last sequence = 1 \<and> count_list sequence 1 = 1"
proof -
  from assms obtain u where "sequence = encode_loop order u @ [1]"
    by (auto simp: text_to_sequence_def bind_e_def encode_eq split: sum.splits prod.splits)
  with encode_loop_no_eos [of order u] show ?thesis by (simp add: count_list_0_iff)
qed

text \<open>
  C1 asks that \<open>text_to_sequence\<close> returns a sequence for every dictionary and every
  text. On the text \<open>$,5\<close> it raises instead: \<open>_dollars_re\<close> matches with group \<open>,5\<close>, which
  \<open>_expand_dollars\<close> hands to \<open>int\<close>. Whatever the library, the order, the dictionary and the
  random numbers are, the result is the \<open>ValueError\<close>.
\<close>

theorem text_to_sequence_raises:
  "text_to_sequence nw order cmudict ''$,5'' rs = Inl ValueError"
  by (simp add: text_to_sequence_def normalize_text_def add_punctuation_def normalize_numbers_def
      comma_number_re_def pounds_re_def dollars_re_def upto_last_digit_def is_digit_def
      expand_dollars_def split_str.simps py_int_def bind_e_def)

lemma hello_world_encoding:
  assumes "set [''HH'', ''AH0'', ''L'', ''OW1''] \<subseteq> set order"
  obtains i1 i2 i3 i4 where
    "encode order ''hello {HH AH0 L OW1} world'' =
       Inr ([36, 33, 40, 40, 43, 65] @ [i1, i2, i3, i4] @ [65, 51, 43, 46, 40, 32] @ [1])"
    "map (\<lambda>i. symbols order ! i) [i1, i2, i3, i4] = [''@HH'', ''@AH0'', ''@L'', ''@OW1'']"
proof -
  from assms have m: "''HH'' \<in> set order" "''AH0'' \<in> set order" "''L'' \<in> set order" "''OW1'' \<in> set order"
    by simp_all
  from phonetic_id [OF m(1)] obtain i1 where i1: "symbols_to_sequence order [''@HH''] = [i1]" "symbols order ! i1 = ''@HH''" by auto
  from phonetic_id [OF m(2)] obtain i2 where i2: "symbols_to_sequence order [''@AH0''] = [i2]" "symbols order ! i2 = ''@AH0''" by auto
  from phonetic_id [OF m(3)] obtain i3 where i3: "symbols_to_sequence order [''@L''] = [i3]" "symbols order ! i3 = ''@L''" by auto
  from phonetic_id [OF m(4)] obtain i4 where i4: "symbols_to_sequence order [''@OW1''] = [i4]" "symbols order ! i4 = ''@OW1''" by auto
  have c1: "curly_re ''hello {HH AH0 L OW1} world'' = Some (''hello '', ''HH AH0 L OW1'', '' world'')"
    by (simp add: bracket_body_def)
  have c2: "curly_re '' world'' = None" by (rule curly_re_no_close) simp
  have sp: "split_ws ''HH AH0 L OW1'' = [''HH'', ''AH0'', ''L'', ''OW1'']" by (simp add: is_space_def)
  have l1: "symbols_to_sequence order (chars_of ''hello '') = [36, 33, 40, 40, 43, 65]"
    by (simp add: literal_ids fixed_ids_eq)
  have l2: "symbols_to_sequence order (chars_of '' world'') = [65, 51, 43, 46, 40, 32]"
    by (simp add: literal_ids fixed_ids_eq)
  have "symbols_to_sequence order ([''@HH''] @ [''@AH0''] @ [''@L''] @ [''@OW1'']) = [i1, i2, i3, i4]"
    by (simp only: symbols_to_sequence_append i1 i2 i3 i4) simp
  then have ph: "arpabet_to_sequence order ''HH AH0 L OW1'' = [i1, i2, i3, i4]"
    by (simp only: arpabet_to_sequence_def sp list.map append.simps)
  have "encode_loop order ''hello {HH AH0 L OW1} world'' =
      [36, 33, 40, 40, 43, 65] @ [i1, i2, i3, i4] @ [65, 51, 43, 46, 40, 32]"
    by (simp only: encode_loop_match [OF c1] encode_loop_no_match [OF c2] l1 l2 ph)
  then have e: "encode order ''hello {HH AH0 L OW1} world'' =
       Inr ([36, 33, 40, 40, 43, 65] @ [i1, i2, i3, i4] @ [65, 51, 43, 46, 40, 32] @ [1])"
    by (simp add: encode_eq)
  have "map (\<lambda>i. symbols order ! i) [i1, i2, i3, i4] = [''@HH'', ''@AH0'', ''@L'', ''@OW1'']"
    by (simp add: i1(2) i2(2) i3(2) i4(2))
  with e show ?thesis by (rule that)
qed

lemma literal_symbols:
  "map (\<lambda>i. symbols order ! i) [36, 33, 40, 40, 43, 65] = chars_of ''hello ''"
  "map (\<lambda>i. symbols order ! i) [65, 51, 43, 46, 40, 32] = chars_of '' world''"
  by (simp_all add: symbols_def pad_def eos_def unk_def english_characters_def punctuation_def chars_of_def)

text \<open>
  C4, as the code has it: for every iteration order of the set of phonetic units, the mixed
  text \<open>hello {HH AH0 L OW1} world\<close> is encoded as the six literal IDs of \<open>hello \<close>, four
  phonetic-unit IDs (of \<open>@HH\<close>, \<open>@AH0\<close>, \<open>@L\<close> and \<open>@OW1\<close>), the six literal IDs of \<open> world\<close>
  and the end-of-sequence ID; the brackets get no ID.
\<close>

theorem mixed_text_example:
  assumes "iteration_order order"
  shows "\<exists>i1 i2 i3 i4.
     encode order ''hello {HH AH0 L OW1} world'' =
       Inr ([36, 33, 40, 40, 43, 65] @ [i1, i2, i3, i4] @ [65, 51, 43, 46, 40, 32] @ [1])
     \<and> map (\<lambda>i. symbols order ! i) [36, 33, 40, 40, 43, 65] = chars_of ''hello ''
     \<and> map (\<lambda>i. symbols order ! i) [i1, i2, i3, i4] = [''@HH'', ''@AH0'', ''@L'', ''@OW1'']
     \<and> map (\<lambda>i. symbols order ! i) [65, 51, 43, 46, 40, 32] = chars_of '' world''"
proof -
  from assms have "set [''HH'', ''AH0'', ''L'', ''OW1''] \<subseteq> set order"
    by (simp add: iteration_order_def cmudict_symbols_def)
  then obtain i1 i2 i3 i4 where
    "encode order ''hello {HH AH0 L OW1} world'' =
       Inr ([36, 33, 40, 40, 43, 65] @ [i1, i2, i3, i4] @ [65, 51, 43, 46, 40, 32] @ [1])"
    "map (\<lambda>i. symbols order ! i) [i1, i2, i3, i4] = [''@HH'', ''@AH0'', ''@L'', ''@OW1'']"
    by (rule hello_world_encoding)
  with literal_symbols [of order] show ?thesis by (intro exI conjI)
qed

theorem mixed_text_example_witness:
  "iteration_order cmudict_symbols \<and>
   (\<exists>i1 i2 i3 i4. encode cmudict_symbols ''hello {HH AH0 L OW1} world'' =
     Inr ([36, 33, 40, 40, 43, 65] @ [i1, i2, i3, i4] @ [65, 51, 43, 46, 40, 32] @ [1]))"
proof -
  have h: "iteration_order cmudict_symbols"
    by (simp add: iteration_order_def cmudict_symbols_def)
  from mixed_text_example [OF h] obtain i1 i2 i3 i4 where
    "encode cmudict_symbols ''hello {HH AH0 L OW1} world'' =
       Inr ([36, 33, 40, 40, 43, 65] @ [i1, i2, i3, i4] @ [65, 51, 43, 46, 40, 32] @ [1])"
    by (elim exE conjE)
  with h show ?thesis by (intro exI conjI)
qed

text \<open>
  The claim C4 as stated fails: the bracketed span does not yield exactly three IDs.
\<close>

theorem mixed_text_example_counterexample:
  "\<not> (\<exists>i1 i2 i3. encode cmudict_symbols ''hello {HH AH0 L OW1} world'' =
       Inr (symbols_to_sequence cmudict_symbols (chars_of ''hello '') @ [i1, i2, i3]
            @ symbols_to_sequence cmudict_symbols (chars_of '' world'') @ [1]))"
proof -
  have "set [''HH'', ''AH0'', ''L'', ''OW1''] \<subseteq> set cmudict_symbols"
    by (simp add: cmudict_symbols_def)
  then obtain i1 i2 i3 i4 where
    "encode cmudict_symbols ''hello {HH AH0 L OW1} world'' =
       Inr ([36, 33, 40, 40, 43, 65] @ [i1, i2, i3, i4] @ [65, 51, 43, 46, 40, 32] @ [1])"
    "map (\<lambda>i. symbols cmudict_symbols ! i) [i1, i2, i3, i4] = [''@HH'', ''@AH0'', ''@L'', ''@OW1'']"
    by (rule hello_world_encoding)
  moreover have "symbols_to_sequence cmudict_symbols (chars_of ''hello '') = [36, 33, 40, 40, 43, 65]"
    "symbols_to_sequence cmudict_symbols (chars_of '' world'') = [65, 51, 43, 46, 40, 32]"
    by (simp_all add: literal_ids fixed_ids_eq)
  ultimately show ?thesis by simp
qed

section \<open>The numeral expander on the spec's examples\<close>

lemmas number_defs =
  normalize_numbers_def comma_number_re_def pounds_re_def dollars_re_def decimal_number_re_def
  ordinal_re_def number_re_def upto_last_digit_def is_digit_def remove_commas_def
  expand_decimal_point_def expand_dollars_def expand_ordinal_def expand_number_def
  str_replace_def literal_match_def py_int_def digit_val_def bind_e_def Let_def

lemma str_nat_values:
  "str_nat 5 = ''5''" "str_nat 50 = ''50''" "str_nat 1234 = ''1234''" "str_nat 1984 = ''1984''"
  by code_simp+

lemma ex_2000: "normalize_numbers nw ''2000'' = Inr ''two thousand''"
  by (simp add: number_defs)

lemma ex_1234:
  assumes "nw (Num 1234) [] ''oh'' 2 = Inr ''twelve, thirty-four''"
  shows "normalize_numbers nw ''1,234'' = Inr ''twelve thirty-four''"
  using assms by (simp add: number_defs)

lemma ex_1984:
  assumes "nw (Num 1984) [] ''oh'' 2 = Inr ''nineteen, eighty-four''"
  shows "normalize_numbers nw ''1984'' = Inr ''nineteen eighty-four''"
  using assms by (simp add: number_defs)

lemma ex_3rd:
  assumes "nw (Str ''3rd'') ''and'' ''zero'' 0 = Inr ''third''"
  shows "normalize_numbers nw ''3rd'' = Inr ''third''"
  using assms by (simp add: number_defs)

lemma ex_dollars:
  assumes "nw (Num 5) [] ''zero'' 0 = Inr ''five''" and "nw (Num 50) [] ''zero'' 0 = Inr ''fifty''"
  shows "normalize_numbers nw ''$5.50'' = Inr ''five dollars, fifty cents''"
  using assms by (simp add: number_defs str_nat_values)

lemmas model_defs =
  number_to_words_def cardinal_def thousands.simps scale_words_def hundreds_name_def tens_name_def
  unit_words_def teen_words_def ten_words_def pair_name_def ordinal_name_def ordinal_word_def
  str_nat_values digit_val_def is_digit_def bind_e_def Let_def

lemma model_values:
  "number_to_words (Num 1234) [] ''oh'' 2 = Inr ''twelve, thirty-four''"
  "number_to_words (Num 5) [] ''zero'' 0 = Inr ''five''"
  "number_to_words (Num 50) [] ''zero'' 0 = Inr ''fifty''"
  "number_to_words (Num 1984) [] ''oh'' 2 = Inr ''nineteen, eighty-four''"
  "number_to_words (Str ''3rd'') ''and'' ''zero'' 0 = Inr ''third''"
  by (simp_all add: model_defs)

lemma comma_number_read_in_pairs:
  "normalize_numbers nw ''1,234'' =
     bind_e (nw (Num 1234) [] ''oh'' 2) (\<lambda>w. Inr (str_replace '', '' '' '' w))"
  by (simp add: number_defs split: sum.splits)

text \<open>
  C5, as the code has it: with a library that reads 5 as \<open>five\<close>, 50 as \<open>fifty\<close>, the pairs
  of 1984 as \<open>nineteen, eighty-four\<close>, the pairs of 1234 as \<open>twelve, thirty-four\<close> and \<open>3rd\<close> as
  \<open>third\<close>, the numeral expander maps \<open>1,234\<close> to \<open>twelve thirty-four\<close> (1234 lies in the range
  1001 to 2999 that is read in pairs), \<open>$5.50\<close> to \<open>five dollars, fifty cents\<close>, \<open>1984\<close> to
  \<open>nineteen eighty-four\<close>, \<open>2000\<close> to \<open>two thousand\<close> and \<open>3rd\<close> to \<open>third\<close>.
\<close>

theorem numeral_examples:
  assumes "nw (Num 1234) [] ''oh'' 2 = Inr ''twelve, thirty-four''"
    and "nw (Num 5) [] ''zero'' 0 = Inr ''five''"
    and "nw (Num 50) [] ''zero'' 0 = Inr ''fifty''"
    and "nw (Num 1984) [] ''oh'' 2 = Inr ''nineteen, eighty-four''"
    and "nw (Str ''3rd'') ''and'' ''zero'' 0 = Inr ''third''"
  shows "normalize_numbers nw ''1,234'' = Inr ''twelve thirty-four''
       \<and> normalize_numbers nw ''$5.50'' = Inr ''five dollars, fifty cents''
       \<and> normalize_numbers nw ''1984'' = Inr ''nineteen eighty-four''
       \<and> normalize_numbers nw ''2000'' = Inr ''two thousand''
       \<and> normalize_numbers nw ''3rd'' = Inr ''third''"
  using ex_1234 [of nw, OF assms(1)] ex_dollars [of nw, OF assms(2) assms(3)]
    ex_1984 [of nw, OF assms(4)] ex_2000 [of nw] ex_3rd [of nw, OF assms(5)]
  by (intro conjI)

theorem numeral_examples_witness:
  "normalize_numbers number_to_words ''1,234'' = Inr ''twelve thirty-four''
   \<and> normalize_numbers number_to_words ''$5.50'' = Inr ''five dollars, fifty cents''
   \<and> normalize_numbers number_to_words ''1984'' = Inr ''nineteen eighty-four''
   \<and> normalize_numbers number_to_words ''2000'' = Inr ''two thousand''
   \<and> normalize_numbers number_to_words ''3rd'' = Inr ''third''"
  by (rule numeral_examples [of number_to_words, OF model_values])

text \<open>
  The claim C5 as stated fails at its first example: \<open>1,234\<close> does not become
  \<open>one thousand two hundred thirty-four\<close>.
\<close>

theorem numeral_examples_counterexample:
  "normalize_numbers number_to_words ''1,234'' \<noteq> Inr ''one thousand two hundred thirty-four''"
  using ex_1234 [of number_to_words, OF model_values(1)] by simp

section \<open>The stages of the pipeline\<close>

text \<open>
  C10: \<open>normalize_text\<close> runs the number rules, the abbreviation rules and the whitespace
  collapse on the text with a full stop appended when the text is not empty and does not end
  in one of the characters \<open>!,.:;?\<close>, and on the text itself otherwise.
\<close>

theorem normalize_text_appends_period:
  "normalize_text nw t =
     bind_e (normalize_numbers nw (if t \<noteq> [] \<and> last t \<notin> set ''!,.:;?'' then t @ ''.'' else t))
       (\<lambda>u. Inr (collapse_whitespace (expand_abbreviations u)))"
  by (simp add: normalize_text_def add_punctuation_def)

lemma no_digits_text: "normalize_numbers nw ''a;b.'' = Inr ''a;b.''" 
  by (simp add: number_defs)

lemma no_digits_text2: "normalize_numbers nw ''a,b'' = Inr ''a,b''" 
  by (simp add: number_defs)

lemma abbr1: "expand_abbreviations ''a;b.'' = ''a;b.''"
  by (simp add: expand_abbreviations_def abbreviations_def abbreviation_re_def word_boundary_def
      wordy_def is_word_def is_ascii_letter_def is_digit_def lower_ascii_def)

text \<open>
  The control flow as the spec words it, for comparison: the punctuation normalizer on the raw
  text, then the numeral expander, the abbreviation expander, the whitespace collapse, the
  pronunciation mixer and the encoder.
\<close>

definition spec_text_to_sequence :: "inflect \<Rightarrow> string list \<Rightarrow> (string \<rightharpoonup> string) \<Rightarrow> string \<Rightarrow> real stream \<Rightarrow> error + (nat list \<times> real stream)" where
  "spec_text_to_sequence nw order cmudict text rs =
     (let text = normalize_punctuation text
      in bind_e (normalize_numbers nw text) (\<lambda>text.
           (let text = expand_abbreviations text;
                text = collapse_whitespace text;
                (text, rs) = mix_pronunciation cmudict text rs
            in bind_e (encode order text) (\<lambda>sequence. Inr (sequence, rs)))))"

lemma get_pronunciations_empty: "get_pronunciations Map.empty ws rs = (ws, rs)"
  by (induction ws arbitrary: rs) (simp_all add: get_pronunciation_def)

lemma mix_pronunciation_empty: "mix_pronunciation Map.empty t rs = (join '' '' (split_str '' '' t), rs)"
  by (simp add: mix_pronunciation_def get_pronunciations_empty)

lemma abbr2: "expand_abbreviations ''a,b'' = ''a,b''"
  by (simp add: expand_abbreviations_def abbreviations_def abbreviation_re_def word_boundary_def
      wordy_def is_word_def is_ascii_letter_def is_digit_def lower_ascii_def)

lemma ws1: "collapse_whitespace ''a;b.'' = ''a;b.''" "collapse_whitespace ''a,b'' = ''a,b''"
  by (simp_all add: collapse_whitespace_def whitespace_re_def is_space_def)

lemma sp1: "join '' '' (split_str '' '' ''a;b.'') = ''a;b.''" "join '' '' (split_str '' '' ''a,b'') = ''a,b''"
  by simp_all

lemma enc1: "encode order ''a;b.'' = Inr [29, 63, 30, 61, 1]" 
proof -
  have "curly_re ''a;b.'' = None" by (rule curly_re_no_close) simp
  from encode_loop_no_match [OF this] show ?thesis
    by (simp add: encode_eq literal_ids fixed_ids_eq)
qed

lemma enc2: "encode order ''a,b'' = Inr [29, 59, 30, 1]" 
proof -
  have "curly_re ''a,b'' = None" by (rule curly_re_no_close) simp
  from encode_loop_no_match [OF this] show ?thesis
    by (simp add: encode_eq literal_ids fixed_ids_eq)
qed

lemma punct1: "normalize_punctuation ''a;b'' = ''a,b''"
  by (simp add: normalize_punctuation_def str_replace_def literal_match_def dash_pattern_def
      parentheses_pattern_def after_mark_space_def)

lemma semicolon_kept:
  "text_to_sequence nw order Map.empty ''a;b'' rs = Inr ([29, 63, 30, 61, 1], rs)"
  by (simp add: text_to_sequence_def normalize_text_def add_punctuation_def no_digits_text
      bind_e_def abbr1 ws1 mix_pronunciation_empty sp1 enc1)

lemma semicolon_spec:
  "spec_text_to_sequence nw order Map.empty ''a;b'' rs = Inr ([29, 59, 30, 1], rs)"
  by (simp add: spec_text_to_sequence_def punct1 no_digits_text2
      bind_e_def abbr2 ws1 mix_pronunciation_empty sp1 enc2)

text \<open>
  C2, as the code has it: \<open>text_to_sequence\<close> applies \<open>add_punctuation\<close> to the raw text, then
  the numeral expander, the abbreviation expander, the whitespace collapse, the pronunciation
  mixer and the encoder, in this order; \<open>normalize_punctuation\<close> is not applied.
\<close>

theorem text_to_sequence_stages:
  "text_to_sequence nw order cmudict t rs =
     bind_e (normalize_numbers nw (add_punctuation t)) (\<lambda>t1.
       (let t2 = expand_abbreviations t1;
            t3 = collapse_whitespace t2;
            (t4, rs') = mix_pronunciation cmudict t3 rs
        in Inr (encode_loop order t4 @ [1], rs')))"
  by (simp add: text_to_sequence_def normalize_text_def bind_e_def encode_eq
      split: sum.splits prod.splits)

theorem text_to_sequence_stages_witness:
  "text_to_sequence number_to_words cmudict_symbols Map.empty ''a;b'' (sconst 0)
     = Inr ([29, 63, 30, 61, 1], sconst 0)"
proof -
  have "encode_loop cmudict_symbols ''a;b.'' @ [1] = [29, 63, 30, 61, 1]"
    using enc1 [of cmudict_symbols] by (simp add: encode_eq)
  with text_to_sequence_stages [of number_to_words cmudict_symbols Map.empty "''a;b''" "sconst 0"]
  show ?thesis
    by (simp add: add_punctuation_def no_digits_text bind_e_def abbr1 ws1 mix_pronunciation_empty sp1)
qed

text \<open>
  The claim C2 as stated fails: on \<open>a;b\<close> the code keeps the semicolon (ID 63) and appends a
  full stop, where the order of the spec would turn the semicolon into a comma first.
\<close>

theorem text_to_sequence_stages_counterexample:
  "text_to_sequence number_to_words cmudict_symbols Map.empty ''a;b'' (sconst 0)
     \<noteq> spec_text_to_sequence number_to_words cmudict_symbols Map.empty ''a;b'' (sconst 0)"
  by (simp add: semicolon_kept semicolon_spec)

theorem normalize_text_appends_period_witness:
  "normalize_text number_to_words ''a;b'' = Inr ''a;b.''
   \<and> normalize_text number_to_words ''a;b.'' = Inr ''a;b.''"
  using normalize_text_appends_period [of number_to_words "''a;b''"]
    normalize_text_appends_period [of number_to_words "''a;b.''"]
  by (simp add: no_digits_text bind_e_def abbr1 ws1)

section \<open>The pronunciation mixer\<close>

text \<open>
  The decision rule of the mixer as the spec words it, for one token and the random number
  drawn for it: a token whose upper-case form has no entry stays as it is whatever the number;
  a token with an entry becomes the bracketed transcription when the number is below 0.5 and
  stays as it is otherwise.
\<close>

definition mixed_token :: "(string \<rightharpoonup> string) \<Rightarrow> string \<Rightarrow> real \<Rightarrow> string" where
  "mixed_token cmudict word draw =
     (case Option.bind (upper word) cmudict of
        None \<Rightarrow> word
      | Some phonemes \<Rightarrow> if draw < 0.5 then ''{'' @ phonemes @ ''}'' else word)"

text \<open>The number of random numbers drawn for a list of tokens: one for each token that has
  an entry.\<close>

definition draws_before :: "(string \<rightharpoonup> string) \<Rightarrow> string list \<Rightarrow> nat" where
  "draws_before cmudict ws = length (filter (\<lambda>w. Option.bind (upper w) cmudict \<noteq> None) ws)"

lemma get_pronunciations_tokens:
  "get_pronunciations cmudict ws rs =
     (map (\<lambda>i. mixed_token cmudict (ws ! i) (rs !! draws_before cmudict (take i ws))) [0 ..< length ws],
      sdrop (draws_before cmudict ws) rs)"
proof (induction ws arbitrary: rs)
  case Nil
  then show ?case by (simp add: draws_before_def)
next
  case (Cons w ws)
  have up: "[0 ..< length (w # ws)] = 0 # map Suc [0 ..< length ws]"
    by (simp add: upt_conv_Cons map_Suc_upt del: upt_Suc)
  show ?case
  proof (cases "Option.bind (upper w) cmudict")
    case None
    then have g: "get_pronunciation cmudict w rs = (w, rs)"
      by (simp add: get_pronunciation_def)
    from None have d: "\<And>xs. draws_before cmudict (w # xs) = draws_before cmudict xs"
      by (simp add: draws_before_def)
    from None have m: "\<And>x. mixed_token cmudict w x = w" by (simp add: mixed_token_def)
    show ?thesis
      unfolding up by (simp add: g Cons.IH d m draws_before_def [of cmudict "[]"] comp_def)
  next
    case (Some ph)
    then have g: "get_pronunciation cmudict w rs = (mixed_token cmudict w (shd rs), stl rs)"
      by (simp add: get_pronunciation_def mixed_token_def)
    from Some have d: "\<And>xs. draws_before cmudict (w # xs) = Suc (draws_before cmudict xs)"
      by (simp add: draws_before_def)
    show ?thesis
      unfolding up by (simp add: g Cons.IH d draws_before_def [of cmudict "[]"] comp_def)
  qed
qed

text \<open>
  C9: \<open>mix_pronunciation\<close> splits the text at single spaces, replaces every token by the
  decision rule applied to the token and to the random number drawn for it (the next unused
  number of the source, numbers being used by the tokens that have an entry only), keeps the
  order of the tokens and joins them with single spaces. Hence a token without an entry is
  output unchanged whatever is drawn, and a token with an entry is output as its bracketed
  transcription exactly when its number is below 0.5.
\<close>

theorem mix_pronunciation_per_token:
  "mix_pronunciation cmudict t rs =
     (let ws = split_str '' '' t
      in (join '' '' (map (\<lambda>i. mixed_token cmudict (ws ! i) (rs !! draws_before cmudict (take i ws)))
                     [0 ..< length ws]),
          sdrop (draws_before cmudict ws) rs))"
  by (simp add: mix_pronunciation_def get_pronunciations_tokens Let_def)

lemma upper_values: "upper ''a'' = Some ''A''" "upper ''x'' = Some ''X''" "upper ''b'' = Some ''B''"
  by code_simp+

theorem mix_pronunciation_per_token_witness:
  "mix_pronunciation [''A'' \<mapsto> ''AH0'', ''B'' \<mapsto> ''B IY1''] ''a x b'' (0.25 ## 0.75 ## sconst 0)
     = (''{AH0} x b'', sconst 0)"
  using mix_pronunciation_per_token [of "[''A'' \<mapsto> ''AH0'', ''B'' \<mapsto> ''B IY1'']" "''a x b''" "0.25 ## 0.75 ## sconst 0"]
  by (simp add: mixed_token_def draws_before_def upper_values upt_rec Let_def)

section \<open>Loading the dictionary\<close>

text \<open>
  A data line as the spec describes it: the headword, the two-space delimiter, the
  transcription and the line end. It is well formed when the headword is not empty and holds
  no whitespace, and the transcription is not empty, neither starts nor ends with whitespace
  and holds no two spaces in a row.
\<close>

definition entry_line :: "string \<Rightarrow> string \<Rightarrow> string \<Rightarrow> string" where
  "entry_line eol headword transcription = headword @ ''  '' @ transcription @ eol"

definition well_formed :: "string \<Rightarrow> string \<Rightarrow> bool" where
  "well_formed headword transcription \<longleftrightarrow>
     headword \<noteq> [] \<and> (\<forall>c \<in> set headword. \<not> is_space c)
     \<and> transcription \<noteq> [] \<and> \<not> is_space (hd transcription) \<and> \<not> is_space (last transcription)
     \<and> \<not> sublist ''  '' transcription"

lemma split_str_no_sublist: "sep \<noteq> [] \<Longrightarrow> \<not> sublist sep s \<Longrightarrow> split_str sep s = [s]"
proof (induction s)
  case Nil
  then show ?case by simp
next
  case (Cons c cs)
  from Cons.prems have "\<not> prefix sep (c # cs)" "\<not> sublist sep cs"
    by (auto simp: sublist_Cons_right)
  with Cons show ?case by simp
qed

lemma sublist_chain: "sublist a b \<Longrightarrow> sublist b c \<Longrightarrow> sublist a c"
  unfolding sublist_def by (metis append.assoc)

lemma strip_sublist: "sublist (strip l) l"
proof -
  have "sublist (rev (dropWhile is_space (rev (dropWhile is_space l)))) (dropWhile is_space l)"
    by (metis sublist_dropWhile sublist_rev_left)
  moreover have "sublist (dropWhile is_space l) l" by simp
  ultimately show ?thesis unfolding strip_def by (rule sublist_chain)
qed

lemma read_entries_error: "read_entries m ls = Inl e \<Longrightarrow> e = ValueError"
  by (induction ls arbitrary: m) (auto split: list.splits)

lemma read_entries_fails:
  assumes "line \<in> set ls" and "length (split_str ''  '' (strip line)) \<noteq> 2"
  shows "read_entries m ls = Inl ValueError"
  using assms
proof (induction ls arbitrary: m)
  case Nil
  then show ?case by simp
next
  case (Cons l ls)
  show ?case
  proof (cases "l = line")
    case True
    with Cons.prems(2) show ?thesis by (auto split: list.splits)
  next
    case False
    with Cons.prems have "line \<in> set ls" by simp
    from Cons.IH [OF this Cons.prems(2)] show ?thesis by (auto split: list.splits)
  qed
qed

lemma missing_delimiter_fails:
  assumes "line \<in> set ls" and "\<not> sublist ''  '' line"
  shows "read_entries m ls = Inl ValueError"
proof -
  from assms(2) strip_sublist [of line] have "\<not> sublist ''  '' (strip line)"
    using sublist_chain by blast
  then have "split_str ''  '' (strip line) = [strip line]"
    by (intro split_str_no_sublist) simp_all
  then have "length (split_str ''  '' (strip line)) \<noteq> 2" by simp
  with assms(1) show ?thesis by (rule read_entries_fails)
qed

lemma strip_entry_line:
  assumes "well_formed h t" and "list_all is_space eol"
  shows "strip (entry_line eol h t) = h @ ''  '' @ t"
proof -
  from assms(1) obtain c h' where h: "h = c # h'" and c: "\<not> is_space c"
    by (cases h) (auto simp: well_formed_def)
  from assms(1) have t: "t \<noteq> []" "\<not> is_space (last t)" by (simp_all add: well_formed_def)
  have 1: "dropWhile is_space (entry_line eol h t) = entry_line eol h t"
    using c by (simp add: entry_line_def h)
  have "rev (entry_line eol h t) = rev eol @ (rev t @ rev (h @ ''  ''))"
    by (simp add: entry_line_def)
  moreover have "dropWhile is_space (rev eol @ (rev t @ rev (h @ ''  ''))) = dropWhile is_space (rev t @ rev (h @ ''  ''))"
    using assms(2) by (intro dropWhile_append2) (simp add: list_all_iff)
  moreover have "dropWhile is_space (rev t @ rev (h @ ''  '')) = rev t @ rev (h @ ''  '')"
    using t by (cases t rule: rev_cases) simp_all
  ultimately have "rev (dropWhile is_space (rev (entry_line eol h t))) = h @ ''  '' @ t"
    by simp
  with 1 show ?thesis by (simp add: strip_def)
qed

lemma split_str_delimiter:
  assumes "\<forall>c \<in> set h. c \<noteq> CHR '' ''"
  shows "split_str ''  '' (h @ ''  '' @ t) = h # split_str ''  '' t"
  using assms
proof (induction h)
  case Nil
  then show ?case by simp
next
  case (Cons c h)
  then have "\<not> prefix ''  '' (c # h @ ''  '' @ t)" by auto
  moreover from Cons have "split_str ''  '' (h @ ''  '' @ t) = h # split_str ''  '' t" by simp
  ultimately show ?case by (simp del: prefix_code)
qed

lemma split_entry_line:
  assumes "well_formed h t" and "list_all is_space eol"
  shows "split_str ''  '' (strip (entry_line eol h t)) = [h, t]"
proof -
  have sp: "is_space CHR '' ''" by (simp add: is_space_def)
  with assms(1) have "\<forall>c \<in> set h. c \<noteq> CHR '' ''" by (auto simp: well_formed_def)
  then have "split_str ''  '' (h @ ''  '' @ t) = h # split_str ''  '' t"
    by (rule split_str_delimiter)
  moreover from assms(1) have "split_str ''  '' t = [t]"
    by (intro split_str_no_sublist) (simp_all add: well_formed_def)
  ultimately show ?thesis by (simp add: strip_entry_line [OF assms])
qed

lemma read_entries_well_formed:
  assumes "\<forall>(h, t) \<in> set entries. well_formed h t" and "list_all is_space eol"
  shows "read_entries m (map (\<lambda>(h, t). entry_line eol h t) entries) =
     Inr (m ++ map_of (rev (map (\<lambda>(h, t). (format_alt_entry h, t)) entries)))"
  using assms(1)
proof (induction entries arbitrary: m)
  case Nil
  then show ?case by simp
next
  case (Cons e entries)
  obtain h t where e: "e = (h, t)" by (cases e)
  with Cons.prems have wf: "well_formed h t" and rest: "\<forall>(h, t) \<in> set entries. well_formed h t"
    by simp_all
  let ?f = "\<lambda>(h, t). entry_line eol h t" and ?g = "\<lambda>(h, t). (format_alt_entry h, t)"
  have "read_entries m (map ?f (e # entries)) = read_entries (m(format_alt_entry h \<mapsto> t)) (map ?f entries)"
    by (simp add: e split_entry_line [OF wf assms(2)])
  also have "\<dots> = Inr (m(format_alt_entry h \<mapsto> t) ++ map_of (rev (map ?g entries)))"
    by (rule Cons.IH [OF rest])
  also have "m(format_alt_entry h \<mapsto> t) ++ map_of (rev (map ?g entries))
      = m ++ map_of (rev (map ?g (e # entries)))"
    by (simp add: e fun_eq_iff map_add_def split: option.splits)
  finally show ?case .
qed

lemma alt_entry_tail:
  "re_sub alt_entry_pattern r seen (w @ [CHR ''('', d, CHR '')'']) =
     re_sub alt_entry_pattern r seen w
       @ (if is_digit d \<and> wordy (rev w @ seen) then r [CHR ''('', d, CHR '')'']
          else [CHR ''('', d, CHR '')''])"
proof (induction "length w" arbitrary: w seen rule: less_induct)
  case less
  let ?tail = "[CHR ''('', d, CHR '')'']"
  have paren: "\<not> is_digit CHR ''(''" by (simp add: is_digit_def)
  show ?case
  proof (cases w)
    case Nil
    then show ?thesis by (simp add: alt_entry_pattern_def)
  next
    case (Cons c cs)
    have same: "alt_entry_pattern seen (c # cs @ ?tail) = alt_entry_pattern seen (c # cs)"
      by (cases cs; cases "tl cs") (auto simp: alt_entry_pattern_def paren)
    show ?thesis
    proof (cases "alt_entry_pattern seen (c # cs)")
      case None
      from less [of cs "c # seen"] Cons None same show ?thesis by simp
    next
      case (Some n)
      then obtain x y cs' where cs: "cs = x # y # cs'" and n: "n = 2"
        by (cases cs; cases "tl cs") (auto simp: alt_entry_pattern_def split: if_splits)
      from less [of cs' "y # x # c # seen"] Cons Some same cs n show ?thesis by simp
    qed
  qed
qed

lemma format_alt_entry_alternate:
  "format_alt_entry (w @ [CHR ''('', d, CHR '')'']) =
     format_alt_entry w
       @ (if is_digit d \<and> w \<noteq> [] \<and> is_word (last w) then [CHR ''{'', d, CHR ''}'']
          else [CHR ''('', d, CHR '')''])"
proof -
  have "wordy (rev w) \<longleftrightarrow> w \<noteq> [] \<and> is_word (last w)"
    by (cases w rule: rev_cases) (simp_all add: wordy_def)
  then show ?thesis
    unfolding format_alt_entry_def by (simp add: alt_entry_tail)
qed

text \<open>
  C8: when one of the consumed lines (lines 126 to 133904 of the file) holds no two spaces in a
  row, \<open>load_cmudict\<close> raises and returns no dictionary. When the consumed lines are the
  well-formed data lines of a list of entries, it returns the dictionary that maps
  \<open>format_alt_entry\<close> of every headword to the transcription of the last line with that key.
  A headword \<open>WORD(d)\<close> with a digit \<open>d\<close> is then a key of the dictionary under a name that
  differs from the key of \<open>WORD\<close>; when \<open>WORD\<close> ends in a word character that name is the key
  of \<open>WORD\<close> followed by \<open>{d}\<close>.
\<close>

theorem load_cmudict_lines:
  "((\<exists>line \<in> set (take (133905 - 126) (drop 126 file_lines)). \<not> sublist ''  '' line)
      \<longrightarrow> load_cmudict file_lines = Inl ValueError)
   \<and> (list_all is_space eol
        \<and> take (133905 - 126) (drop 126 file_lines) = map (\<lambda>(h, t). entry_line eol h t) entries
        \<and> (\<forall>(h, t) \<in> set entries. well_formed h t)
      \<longrightarrow> (\<exists>cmudict. load_cmudict file_lines = Inr cmudict
            \<and> cmudict = map_of (rev (map (\<lambda>(h, t). (format_alt_entry h, t)) entries))
            \<and> (\<forall>w d t. (w @ [CHR ''('', d, CHR '')''], t) \<in> set entries \<and> is_digit d \<longrightarrow>
                  format_alt_entry (w @ [CHR ''('', d, CHR '')'']) \<in> dom cmudict
                  \<and> format_alt_entry (w @ [CHR ''('', d, CHR '')'']) \<noteq> format_alt_entry w
                  \<and> (w \<noteq> [] \<and> is_word (last w) \<longrightarrow>
                       format_alt_entry (w @ [CHR ''('', d, CHR '')''])
                         = format_alt_entry w @ [CHR ''{'', d, CHR ''}'']))))"
proof (intro conjI impI)
  assume "\<exists>line \<in> set (take (133905 - 126) (drop 126 file_lines)). \<not> sublist ''  '' line"
  then show "load_cmudict file_lines = Inl ValueError"
    unfolding load_cmudict_def by (auto intro: missing_delimiter_fails)
next
  assume a: "list_all is_space eol
        \<and> take (133905 - 126) (drop 126 file_lines) = map (\<lambda>(h, t). entry_line eol h t) entries
        \<and> (\<forall>(h, t) \<in> set entries. well_formed h t)"
  let ?m = "map_of (rev (map (\<lambda>(h, t). (format_alt_entry h, t)) entries))"
  from a have wf: "\<forall>(h, t) \<in> set entries. well_formed h t" and eol: "list_all is_space eol" by simp_all
  from a read_entries_well_formed [OF wf eol, of Map.empty]
  have l: "load_cmudict file_lines = Inr ?m"
    by (simp add: load_cmudict_def)
  have k: "format_alt_entry h \<in> dom ?m" if "(h, t) \<in> set entries" for h t
  proof -
    from that have "(format_alt_entry h, t) \<in> set (rev (map (\<lambda>(h, t). (format_alt_entry h, t)) entries))"
      by force
    then have "format_alt_entry h \<in> fst ` set (rev (map (\<lambda>(h, t). (format_alt_entry h, t)) entries))"
      by (metis fst_conv image_eqI)
    then show ?thesis by (simp only: dom_map_of_conv_image_fst)
  qed
  show "\<exists>cmudict. load_cmudict file_lines = Inr cmudict
            \<and> cmudict = map_of (rev (map (\<lambda>(h, t). (format_alt_entry h, t)) entries))
            \<and> (\<forall>w d t. (w @ [CHR ''('', d, CHR '')''], t) \<in> set entries \<and> is_digit d \<longrightarrow>
                  format_alt_entry (w @ [CHR ''('', d, CHR '')'']) \<in> dom cmudict
                  \<and> format_alt_entry (w @ [CHR ''('', d, CHR '')'']) \<noteq> format_alt_entry w
                  \<and> (w \<noteq> [] \<and> is_word (last w) \<longrightarrow>
                       format_alt_entry (w @ [CHR ''('', d, CHR '')''])
                         = format_alt_entry w @ [CHR ''{'', d, CHR ''}'']))"
  proof (intro exI conjI allI impI)
    show "load_cmudict file_lines = Inr ?m" by (rule l)
  next
    show "?m = map_of (rev (map (\<lambda>(h, t). (format_alt_entry h, t)) entries))" by (rule refl)
  next
    fix w d t
    assume "(w @ [CHR ''('', d, CHR '')''], t) \<in> set entries \<and> is_digit d"
    then have "(w @ [CHR ''('', d, CHR '')''], t) \<in> set entries" by simp
    then show "format_alt_entry (w @ [CHR ''('', d, CHR '')'']) \<in> dom ?m" by (rule k)
  next
    fix w d t
    show "format_alt_entry (w @ [CHR ''('', d, CHR '')'']) \<noteq> format_alt_entry w"
      by (simp add: format_alt_entry_alternate)
  next
    fix w d t
    assume "(w @ [CHR ''('', d, CHR '')''], t) \<in> set entries \<and> is_digit d" "w \<noteq> [] \<and> is_word (last w)"
    then show "format_alt_entry (w @ [CHR ''('', d, CHR '')'']) = format_alt_entry w @ [CHR ''{'', d, CHR ''}'']"
      by (simp add: format_alt_entry_alternate)
  qed
qed


theorem load_cmudict_lines_witness:
  "load_cmudict (replicate 126 ''header'' @ [''READ R EH1 D'']) = Inl ValueError
   \<and> (\<exists>cmudict. load_cmudict (replicate 126 ''header''
           @ [entry_line [CHR 0x0A] ''READ'' ''R EH1 D'', entry_line [CHR 0x0A] ''READ(1)'' ''R IY1 D''])
         = Inr cmudict
       \<and> format_alt_entry ''READ(1)'' \<in> dom cmudict
       \<and> format_alt_entry ''READ(1)'' = format_alt_entry ''READ'' @ ''{1}'')"
proof -
  let ?bad = "replicate 126 ''header'' @ [''READ R EH1 D'']"
  let ?entries = "[(''READ'', ''R EH1 D''), (''READ(1)'', ''R IY1 D'')]"
  let ?good = "replicate 126 ''header''
           @ [entry_line [CHR 0x0A] ''READ'' ''R EH1 D'', entry_line [CHR 0x0A] ''READ(1)'' ''R IY1 D'']"
  have b: "\<exists>line \<in> set (take (133905 - 126) (drop 126 ?bad)). \<not> sublist ''  '' line"
    by (simp add: sublist_Cons_right)
  have w: "\<forall>(h, t) \<in> set ?entries. well_formed h t"
    by (simp add: well_formed_def is_space_def sublist_Cons_right)
  have g: "list_all is_space [CHR 0x0A]
        \<and> take (133905 - 126) (drop 126 ?good) = map (\<lambda>(h, t). entry_line [CHR 0x0A] h t) ?entries
        \<and> (\<forall>(h, t) \<in> set ?entries. well_formed h t)"
    using w by (simp add: is_space_def)
  have i: "is_digit CHR ''1''" "is_word (last ''READ'')"
    by (simp_all add: is_digit_def is_word_def is_ascii_letter_def)
  from load_cmudict_lines [of ?bad] b have 1: "load_cmudict ?bad = Inl ValueError" by blast
  from load_cmudict_lines [of ?good "[CHR 0x0A]" ?entries] g obtain cmudict where
    c: "load_cmudict ?good = Inr cmudict"
    and a: "\<forall>w d t. (w @ [CHR ''('', d, CHR '')''], t) \<in> set ?entries \<and> is_digit d \<longrightarrow>
                  format_alt_entry (w @ [CHR ''('', d, CHR '')'']) \<in> dom cmudict
                  \<and> format_alt_entry (w @ [CHR ''('', d, CHR '')'']) \<noteq> format_alt_entry w
                  \<and> (w \<noteq> [] \<and> is_word (last w) \<longrightarrow>
                       format_alt_entry (w @ [CHR ''('', d, CHR '')''])
                         = format_alt_entry w @ [CHR ''{'', d, CHR ''}''])"
    by blast
  from a [rule_format, of "''READ''" "CHR ''1''" "''R IY1 D''"] i
  have "format_alt_entry ''READ(1)'' \<in> dom cmudict
      \<and> format_alt_entry ''READ(1)'' \<noteq> format_alt_entry ''READ''
      \<and> format_alt_entry ''READ(1)'' = format_alt_entry ''READ'' @ ''{1}''"
    by auto
  with 1 c show ?thesis by blast
qed

end
